theory Spec2Isabelle
  imports Main "HOL-Library.Sublist" "HOL-Library.Char_ord"
begin

section \<open>The skill installer extension of PiCrust\<close>

text \<open>
  A shallow embedding of the skill installer
  (\<^verbatim>\<open>src/PiCrust/AgentFiles/extensions/discord-reactions.ts\<close>, lines 242 to 485):
  the helpers \<^verbatim>\<open>getBaseUrl\<close>, \<^verbatim>\<open>getSkillName\<close>, \<^verbatim>\<open>findReferencedFiles\<close>,
  \<^verbatim>\<open>isSafePath\<close>, \<^verbatim>\<open>fetchText\<close>, \<^verbatim>\<open>ensureSkillsDir\<close> and the tools
  \<^verbatim>\<open>install_skill\<close> and \<^verbatim>\<open>uninstall_skill\<close>.

  A JavaScript string is a \<^typ>\<open>string\<close>: one \<^typ>\<open>char\<close> per code unit, for the code
  units below 256. The classes of the regular expressions are read in that range:
  \<^verbatim>\<open>\w\<close> is \<^verbatim>\<open>[A-Za-z0-9_]\<close>, and \<^verbatim>\<open>\s\<close> is tab, line feed, vertical tab, form feed,
  carriage return, space and the no-break space.
\<close>

subsection \<open>Strings\<close>

definition is_word :: "char \<Rightarrow> bool" where
  \<comment> \<open>the class \<^verbatim>\<open>\w\<close>\<close>
  "is_word c = ((CHR ''a'' \<le> c \<and> c \<le> CHR ''z'') \<or> (CHR ''A'' \<le> c \<and> c \<le> CHR ''Z'')
     \<or> (CHR ''0'' \<le> c \<and> c \<le> CHR ''9'') \<or> c = CHR ''_'')"

definition is_space :: "char \<Rightarrow> bool" where
  \<comment> \<open>the class \<^verbatim>\<open>\s\<close>, which is also what \<^verbatim>\<open>trim\<close> removes\<close>
  "is_space c = (c = CHR 0x09 \<or> c = CHR 0x0A \<or> c = CHR 0x0B \<or> c = CHR 0x0C \<or> c = CHR 0x0D
     \<or> c = CHR 0x20 \<or> c = CHR 0xA0)"

definition trim :: "string \<Rightarrow> string" where
  \<comment> \<open>\<^verbatim>\<open>s.trim()\<close>\<close>
  "trim s = rev (dropWhile is_space (rev (dropWhile is_space s)))"

definition starts_with :: "string \<Rightarrow> string \<Rightarrow> bool" where
  \<comment> \<open>\<^verbatim>\<open>s.startsWith(p)\<close>\<close>
  "starts_with s p = prefix p s"

fun includes_str :: "string \<Rightarrow> string \<Rightarrow> bool" where
  \<comment> \<open>\<^verbatim>\<open>s.includes(p)\<close>\<close>
  "includes_str [] p = (p = [])"
| "includes_str (c # cs) p = (prefix p (c # cs) \<or> includes_str cs p)"

fun split_on :: "char \<Rightarrow> string \<Rightarrow> string list" where
  \<comment> \<open>\<^verbatim>\<open>s.split(c)\<close> for a separator of one character: never the empty list\<close>
  "split_on c [] = [[]]"
| "split_on c (x # xs) =
     (if x = c then [] # split_on c xs
      else (case split_on c xs of [] \<Rightarrow> [[x]] | s # ss \<Rightarrow> (x # s) # ss))"

fun join_with :: "string \<Rightarrow> string list \<Rightarrow> string" where
  \<comment> \<open>\<^verbatim>\<open>xs.join(sep)\<close>\<close>
  "join_with sep [] = []"
| "join_with sep [x] = x"
| "join_with sep (x # y # ys) = x @ sep @ join_with sep (y # ys)"

fun index_of_from :: "nat \<Rightarrow> string \<Rightarrow> string \<Rightarrow> int" where
  "index_of_from i [] p = (if p = [] then int i else - 1)"
| "index_of_from i (c # cs) p =
     (if prefix p (c # cs) then int i else index_of_from (Suc i) cs p)"

definition index_of :: "string \<Rightarrow> string \<Rightarrow> int" where
  \<comment> \<open>\<^verbatim>\<open>s.indexOf(p)\<close>: the first index where \<open>p\<close> occurs, or -1\<close>
  "index_of s p = index_of_from 0 s p"

definition last_index_of :: "string \<Rightarrow> char \<Rightarrow> int" where
  \<comment> \<open>\<^verbatim>\<open>s.lastIndexOf(c)\<close> for one character: the last index of \<open>c\<close>, or -1\<close>
  "last_index_of s c =
     (if c \<in> set s then int (length s) - 1 - int (length (takeWhile (\<lambda>x. x \<noteq> c) (rev s)))
      else - 1)"

definition digit_char :: "nat \<Rightarrow> char" where
  "digit_char d = ''0123456789'' ! d"

function dec :: "nat \<Rightarrow> string" where
  \<comment> \<open>a non-negative integer in a template literal: its decimal digits\<close>
  "dec n = (if n < 10 then [digit_char n] else dec (n div 10) @ [digit_char (n mod 10)])"
  by pat_completeness auto
termination
  by (relation "measure id") auto

declare dec.simps [simp del]

subsection \<open>Names derived from the URL\<close>

definition getBaseUrl :: "string \<Rightarrow> string" where
  \<comment> \<open>lines 269 to 272\<close>
  "getBaseUrl url =
     (let lastSlash = last_index_of url CHR ''/''
      in if lastSlash > index_of url ''://'' + 2 then take (nat lastSlash) url else url)"

fun strip_ext :: "string \<Rightarrow> string" where
  \<comment> \<open>\<^verbatim>\<open>filename.replace(/\.\w+$/, "")\<close>: the leftmost position where a dot is followed
      by one or more word characters up to the end of the string; the match is removed\<close>
  "strip_ext [] = []"
| "strip_ext (c # cs) =
     (if c = CHR ''.'' \<and> cs \<noteq> [] \<and> list_all is_word cs then [] else c # strip_ext cs)"

definition getSkillName :: "string \<Rightarrow> string" where
  \<comment> \<open>lines 274 to 277; \<^verbatim>\<open>x || "skill"\<close> replaces the empty string\<close>
  "getSkillName url =
     (let seg = last (split_on CHR ''/'' url);
          filename = (if seg = [] then ''skill'' else seg)
      in strip_ext filename)"

definition sanitize :: "string \<Rightarrow> string" where
  \<comment> \<open>\<^verbatim>\<open>.replace(/[^\w\-]/g, "-")\<close>\<close>
  "sanitize s = map (\<lambda>c. if is_word c \<or> c = CHR ''-'' then c else CHR ''-'') s"

definition skill_name :: "string option \<Rightarrow> string \<Rightarrow> string" where
  \<comment> \<open>line 356: \<^verbatim>\<open>(params.name?.trim() || getSkillName(url)).replace(/[^\w\-]/g, "-")\<close>;
      an absent \<^verbatim>\<open>params.name\<close> is \<open>None\<close>\<close>
  "skill_name name url =
     sanitize (case name of
                 None \<Rightarrow> getSkillName url
               | Some n \<Rightarrow> (if trim n = [] then getSkillName url else trim n))"

definition main_filename :: "string \<Rightarrow> string" where
  \<comment> \<open>line 375: \<^verbatim>\<open>url.split("/").pop() || "skill.md"\<close>\<close>
  "main_filename url =
     (let seg = last (split_on CHR ''/'' url) in if seg = [] then ''skill.md'' else seg)"

subsection \<open>The reference scanner\<close>

text \<open>
  \<^verbatim>\<open>/\[([^\]]*)\]\(([^)]+)\)/g\<close> tried at the head of a string. The label is the longest
  run without a closing bracket (a shorter one is followed by a character that is not
  the bracket), the target the longest run without a closing parenthesis, at least one
  character long. The result is the target and the text after the match.
\<close>

definition match_link :: "string \<Rightarrow> (string \<times> string) option" where
  "match_link s =
     (case s of
        [] \<Rightarrow> None
      | c # r1 \<Rightarrow>
          if c \<noteq> CHR ''['' then None
          else (case dropWhile (\<lambda>x. x \<noteq> CHR '']'') r1 of
                  c1 # c2 # r3 \<Rightarrow>
                    if c2 \<noteq> CHR ''('' then None
                    else (let href = takeWhile (\<lambda>x. x \<noteq> CHR '')'') r3;
                              r4 = dropWhile (\<lambda>x. x \<noteq> CHR '')'') r3
                          in if href = [] \<or> r4 = [] then None else Some (href, tl r4))
                | _ \<Rightarrow> None))"

lemma match_link_shorter: "match_link s = Some (h, r) \<Longrightarrow> length r < length s"
proof -
  assume m: "match_link s = Some (h, r)"
  then obtain c r1 where s: "s = c # r1"
    by (cases s) (auto simp: match_link_def)
  from m s obtain c1 c2 r3 where d: "dropWhile (\<lambda>x. x \<noteq> CHR '']'') r1 = c1 # c2 # r3"
    by (auto simp: match_link_def split: if_splits list.splits)
  from m s d have r: "r = tl (dropWhile (\<lambda>x. x \<noteq> CHR '')'') r3)"
    by (auto simp: match_link_def Let_def split: if_splits)
  have "length (dropWhile (\<lambda>x. x \<noteq> CHR '']'') r1) \<le> length r1"
    by (rule length_dropWhile_le)
  with d have "length r3 < length r1" by simp
  moreover have "length (dropWhile (\<lambda>x. x \<noteq> CHR '')'') r3) \<le> length r3"
    by (rule length_dropWhile_le)
  ultimately show ?thesis using r s by simp
qed

function link_targets :: "string \<Rightarrow> string list" where
  \<comment> \<open>the loop of lines 286 to 291 before its test: \<^verbatim>\<open>match[2]\<close> of every match, the
      search resuming where the last match ended\<close>
  "link_targets [] = []"
| "link_targets (c # cs) =
     (case match_link (c # cs) of
        Some (href, rest) \<Rightarrow> href # link_targets rest
      | None \<Rightarrow> link_targets cs)"
  by pat_completeness auto
termination
  by (relation "measure length") (auto dest: match_link_shorter)

definition link_ok :: "string \<Rightarrow> bool" where
  \<comment> \<open>line 288\<close>
  "link_ok href =
     (\<not> starts_with href ''http'' \<and> \<not> starts_with href ''#'' \<and> \<not> starts_with href ''mailto:'')"

text \<open>
  \<^verbatim>\<open>/`([^`\s]+\.\w{1,10})`/g\<close> tried at the head of a string. Every character of the
  group is neither a backtick nor white space and the group is followed by a backtick,
  so the group is the longest such run; word characters exclude the dot, so the dot of
  the pattern is the last dot of the run.
\<close>

definition tick_char :: "char \<Rightarrow> bool" where
  \<comment> \<open>the class \<^verbatim>\<open>[^`\s]\<close>\<close>
  "tick_char c = (c \<noteq> CHR 0x60 \<and> \<not> is_space c)"

definition has_ext :: "string \<Rightarrow> bool" where
  \<comment> \<open>the run matches \<^verbatim>\<open>[^`\s]+\.\w{1,10}\<close> as a whole\<close>
  "has_ext run =
     (let w = takeWhile is_word (rev run)
      in 1 \<le> length w \<and> length w \<le> 10 \<and>
         (case dropWhile is_word (rev run) of
            [] \<Rightarrow> False
          | d # x \<Rightarrow> d = CHR ''.'' \<and> x \<noteq> []))"

definition match_tick :: "string \<Rightarrow> (string \<times> string) option" where
  "match_tick s =
     (case s of
        [] \<Rightarrow> None
      | c # r1 \<Rightarrow>
          if c \<noteq> CHR 0x60 then None
          else (let run = takeWhile tick_char r1
                in case dropWhile tick_char r1 of
                     [] \<Rightarrow> None
                   | c1 # rest \<Rightarrow>
                       if c1 = CHR 0x60 \<and> has_ext run then Some (run, rest) else None))"

lemma match_tick_shorter: "match_tick s = Some (h, r) \<Longrightarrow> length r < length s"
proof -
  assume m: "match_tick s = Some (h, r)"
  then obtain c r1 where s: "s = c # r1"
    by (cases s) (auto simp: match_tick_def)
  from m s obtain c1 where d: "dropWhile tick_char r1 = c1 # r"
    by (auto simp: match_tick_def Let_def split: if_splits list.splits)
  have "length (dropWhile tick_char r1) \<le> length r1"
    by (rule length_dropWhile_le)
  with d s show ?thesis by simp
qed

function tick_tokens :: "string \<Rightarrow> string list" where
  \<comment> \<open>the loop of lines 295 to 300 before its test: \<^verbatim>\<open>match[1]\<close> of every match\<close>
  "tick_tokens [] = []"
| "tick_tokens (c # cs) =
     (case match_tick (c # cs) of
        Some (tok, rest) \<Rightarrow> tok # tick_tokens rest
      | None \<Rightarrow> tick_tokens cs)"
  by pat_completeness auto
termination
  by (relation "measure length") (auto dest: match_tick_shorter)

definition tick_ok :: "string \<Rightarrow> bool" where
  \<comment> \<open>line 297: \<^verbatim>\<open>/^[\w\-\/\.]+$/.test(ref) && !ref.startsWith(".") && !ref.includes("..")\<close>\<close>
  "tick_ok r =
     (r \<noteq> [] \<and> list_all (\<lambda>c. is_word c \<or> c = CHR ''-'' \<or> c = CHR ''/'' \<or> c = CHR ''.'') r
      \<and> \<not> starts_with r ''.'' \<and> \<not> includes_str r ''..'')"

definition add_ref :: "string list \<Rightarrow> string \<Rightarrow> string list" where
  \<comment> \<open>\<^verbatim>\<open>refs.add(r)\<close> on a set that is read in insertion order\<close>
  "add_ref refs r = (if r \<in> set refs then refs else refs @ [r])"

definition findReferencedFiles :: "string \<Rightarrow> string list" where
  \<comment> \<open>lines 280 to 303\<close>
  "findReferencedFiles content =
     foldl add_ref (foldl add_ref [] (filter link_ok (link_targets content)))
       (filter tick_ok (tick_tokens content))"

subsection \<open>The path module\<close>

text \<open>
  \<^verbatim>\<open>path.resolve\<close>, \<^verbatim>\<open>path.join\<close>, \<^verbatim>\<open>path.normalize\<close> and \<^verbatim>\<open>path.dirname\<close> are
  functions of Node, here in their POSIX variant (\<^verbatim>\<open>path.sep\<close> is the slash). Node's
  \<^verbatim>\<open>normalizeString\<close> walks the characters; the model walks the segments between
  slashes with the same stack: an empty segment and \<^verbatim>\<open>.\<close> are dropped, \<^verbatim>\<open>..\<close> removes
  the segment before it, and where there is none (or it is \<^verbatim>\<open>..\<close> itself) it is kept
  only when the path may climb above its start. The stack is held top first.
\<close>

definition norm_step :: "bool \<Rightarrow> string list \<Rightarrow> string \<Rightarrow> string list" where
  "norm_step allowAboveRoot stk seg =
     (if seg = [] \<or> seg = ''.'' then stk
      else if seg = ''..'' then
        (case stk of
           [] \<Rightarrow> if allowAboveRoot then [''..''] else []
         | t # below \<Rightarrow>
             if t = ''..'' then (if allowAboveRoot then ''..'' # stk else stk) else below)
      else seg # stk)"

definition norm_segments :: "bool \<Rightarrow> string \<Rightarrow> string list" where
  "norm_segments allowAboveRoot p =
     rev (foldl (norm_step allowAboveRoot) [] (split_on CHR ''/'' p))"

definition normalizeString :: "string \<Rightarrow> bool \<Rightarrow> string" where
  "normalizeString p allowAboveRoot = join_with ''/'' (norm_segments allowAboveRoot p)"

fun resolve_args :: "string \<Rightarrow> string list \<Rightarrow> string \<Rightarrow> string \<times> bool" where
  \<comment> \<open>the loop of \<^verbatim>\<open>path.resolve\<close> over its arguments from the last to the first, then
      the working directory: the path so far and whether it is absolute\<close>
  "resolve_args cwd [] acc = (if cwd = [] then (acc, False) else (cwd @ ''/'' @ acc, hd cwd = CHR ''/''))"
| "resolve_args cwd (p # ps) acc =
     (if p = [] then resolve_args cwd ps acc
      else if hd p = CHR ''/'' then (p @ ''/'' @ acc, True)
      else resolve_args cwd ps (p @ ''/'' @ acc))"

definition path_resolve :: "string \<Rightarrow> string list \<Rightarrow> string" where
  \<comment> \<open>\<^verbatim>\<open>path.resolve(...args)\<close> in the working directory \<open>cwd\<close>\<close>
  "path_resolve cwd args =
     (case resolve_args cwd (rev args) [] of
        (resolvedPath, resolvedAbsolute) \<Rightarrow>
          (let n = normalizeString resolvedPath (\<not> resolvedAbsolute)
           in if resolvedAbsolute then ''/'' @ n else if n \<noteq> [] then n else ''.''))"

definition path_normalize :: "string \<Rightarrow> string" where
  \<comment> \<open>\<^verbatim>\<open>path.normalize(p)\<close>: a trailing slash is kept\<close>
  "path_normalize p =
     (if p = [] then ''.''
      else (let isAbsolute = (hd p = CHR ''/'');
                trailingSeparator = (last p = CHR ''/'');
                n = normalizeString p (\<not> isAbsolute)
            in if n = [] then (if isAbsolute then ''/'' else if trailingSeparator then ''./'' else ''.'')
               else (if isAbsolute then ''/'' else []) @ n @ (if trailingSeparator then ''/'' else [])))"

definition path_join :: "string list \<Rightarrow> string" where
  \<comment> \<open>\<^verbatim>\<open>path.join(...args)\<close>: the non-empty arguments joined by a slash, normalized\<close>
  "path_join args =
     (let parts = filter (\<lambda>a. a \<noteq> []) args
      in if parts = [] then ''.'' else path_normalize (join_with ''/'' parts))"

definition path_dirname :: "string \<Rightarrow> string" where
  \<comment> \<open>\<^verbatim>\<open>path.dirname(p)\<close>: from the end and down to index 1, trailing slashes are passed,
      then the last segment; the slash found there is at index \<open>end_ix\<close>\<close>
  "path_dirname p =
     (if p = [] then ''.''
      else (let hasRoot = (hd p = CHR ''/'');
                kept = dropWhile (\<lambda>c. c \<noteq> CHR ''/'')
                         (dropWhile (\<lambda>c. c = CHR ''/'') (rev (tl p)));
                end_ix = length kept
            in if kept = [] then (if hasRoot then ''/'' else ''.'')
               else if hasRoot \<and> end_ix = 1 then ''//''
               else take end_ix p))"

definition skillsDir :: "string \<Rightarrow> string" where
  \<comment> \<open>line 261: \<^verbatim>\<open>path.resolve("skills")\<close>\<close>
  "skillsDir cwd = path_resolve cwd [''skills'']"

definition isSafePath :: "string \<Rightarrow> string \<Rightarrow> string \<Rightarrow> bool" where
  \<comment> \<open>lines 306 to 309, in the working directory \<open>cwd\<close>\<close>
  "isSafePath cwd skillDir relativePath =
     (let resolved = path_resolve cwd [skillDir, relativePath]
      in starts_with resolved (skillDir @ ''/'') \<or> resolved = skillDir)"

subsection \<open>The file system\<close>

text \<open>
  The file system maps a location, the list of the segments of an absolute path, to
  what is there. The root is a directory. Only what the extension calls is modelled:
  \<^verbatim>\<open>existsSync\<close>, \<^verbatim>\<open>mkdirSync\<close> with \<^verbatim>\<open>recursive\<close>, \<^verbatim>\<open>writeFileSync\<close> and
  \<^verbatim>\<open>rmSync\<close> with \<^verbatim>\<open>recursive\<close> and \<^verbatim>\<open>force\<close>. Links and permissions are left out.
  A call that fails throws; the thrown value is an error object with its message. A path
  that holds a NUL character is refused by every call: \<^verbatim>\<open>existsSync\<close> answers false and
  the others throw.
\<close>

datatype node = Dir | File string

type_synonym filesystem = "string list \<Rightarrow> node option"

datatype js_error = JsError (message: "string option")

definition node_at :: "filesystem \<Rightarrow> string list \<Rightarrow> node option" where
  "node_at f l = (if l = [] then Some Dir else f l)"

definition path_segments :: "string \<Rightarrow> string list" where
  \<comment> \<open>the location an absolute path names\<close>
  "path_segments p = norm_segments False p"

definition trailing_slash :: "string \<Rightarrow> bool" where
  "trailing_slash p = (p \<noteq> [] \<and> last p = CHR ''/'')"

definition has_nul :: "string \<Rightarrow> bool" where
  "has_nul p = (CHR 0x00 \<in> set p)"

definition existsSync :: "filesystem \<Rightarrow> string \<Rightarrow> bool" where
  \<comment> \<open>a path with a trailing slash names a directory only\<close>
  "existsSync f p =
     (if has_nul p then False
      else (case node_at f (path_segments p) of
              None \<Rightarrow> False
            | Some Dir \<Rightarrow> True
            | Some (File _) \<Rightarrow> \<not> trailing_slash p))"

definition is_file :: "node option \<Rightarrow> bool" where
  "is_file n = (case n of Some (File _) \<Rightarrow> True | _ \<Rightarrow> False)"

definition mkdirSync :: "filesystem \<Rightarrow> string \<Rightarrow> js_error + filesystem" where
  \<comment> \<open>\<^verbatim>\<open>fs.mkdirSync(p, { recursive: true })\<close>: every missing directory on the way is
      created; a file on the way, or at the path itself, is an error\<close>
  "mkdirSync f p =
     (let ps = tl (prefixes (path_segments p))
      in if has_nul p then Inl (JsError (Some ''ERR_INVALID_ARG_VALUE''))
         else if list_ex (\<lambda>q. is_file (f q)) (butlast ps) then Inl (JsError (Some ''ENOTDIR''))
         else if list_ex (\<lambda>q. is_file (f q)) ps then Inl (JsError (Some ''EEXIST''))
         else Inr (\<lambda>k. if k \<in> set ps \<and> f k = None then Some Dir else f k))"

definition writeFileSync :: "filesystem \<Rightarrow> string \<Rightarrow> string \<Rightarrow> js_error + filesystem" where
  \<comment> \<open>\<^verbatim>\<open>fs.writeFileSync(p, data, "utf-8")\<close>: the parent must be a directory and the
      target must not be one\<close>
  "writeFileSync f p data =
     (let l = path_segments p
      in if has_nul p then Inl (JsError (Some ''ERR_INVALID_ARG_VALUE''))
         else if l = [] \<or> trailing_slash p then Inl (JsError (Some ''EISDIR''))
         else (case node_at f (butlast l) of
                 None \<Rightarrow> Inl (JsError (Some ''ENOENT''))
               | Some (File _) \<Rightarrow> Inl (JsError (Some ''ENOTDIR''))
               | Some Dir \<Rightarrow>
                   (case f l of
                      Some Dir \<Rightarrow> Inl (JsError (Some ''EISDIR''))
                    | _ \<Rightarrow> Inr (f(l \<mapsto> File data)))))"

definition rmSync :: "filesystem \<Rightarrow> string \<Rightarrow> js_error + filesystem" where
  \<comment> \<open>\<^verbatim>\<open>fs.rmSync(p, { recursive: true, force: true })\<close>: what is at the location goes
      with everything below it; nothing there is no error\<close>
  "rmSync f p =
     (let l = path_segments p
      in if has_nul p then Inl (JsError (Some ''ERR_INVALID_ARG_VALUE''))
         else if is_file (node_at f l) \<and> trailing_slash p then Inl (JsError (Some ''ENOTDIR''))
         else Inr (\<lambda>k. if prefix l k then None else f k))"

subsection \<open>Effects\<close>

text \<open>
  The world is the file system and the list of the URLs handed to \<^verbatim>\<open>fetch\<close> so far. The
  transport answers the request number \<open>n\<close> for a URL: it rejects with an error, or it
  gives a response, whose body can in turn fail to be read. A run of the program against
  any network is a run against some transport.
\<close>

record world =
  files :: filesystem
  requested :: "string list"

record response =
  resp_ok :: bool
  resp_status :: nat
  resp_text :: "js_error + string"

type_synonym transport = "nat \<Rightarrow> string \<Rightarrow> js_error + response"

type_synonym 'a io = "world \<Rightarrow> (js_error + 'a) \<times> world"

definition return_io :: "'a \<Rightarrow> 'a io" where
  "return_io x = (\<lambda>w. (Inr x, w))"

definition bind_io :: "'a io \<Rightarrow> ('a \<Rightarrow> 'b io) \<Rightarrow> 'b io" where
  \<comment> \<open>one statement after another: a throw skips the rest\<close>
  "bind_io m k = (\<lambda>w. case m w of (Inl e, w') \<Rightarrow> (Inl e, w') | (Inr x, w') \<Rightarrow> k x w')"

definition catch_io :: "'a io \<Rightarrow> (js_error \<Rightarrow> 'a io) \<Rightarrow> 'a io" where
  \<comment> \<open>\<^verbatim>\<open>try { m } catch (err) { h }\<close>\<close>
  "catch_io m h = (\<lambda>w. case m w of (Inl e, w') \<Rightarrow> h e w' | (Inr x, w') \<Rightarrow> (Inr x, w'))"

definition exists_io :: "string \<Rightarrow> bool io" where
  "exists_io p = (\<lambda>w. (Inr (existsSync (files w) p), w))"

definition lift_fs :: "(filesystem \<Rightarrow> js_error + filesystem) \<Rightarrow> unit io" where
  "lift_fs op = (\<lambda>w. case op (files w) of Inl e \<Rightarrow> (Inl e, w) | Inr f \<Rightarrow> (Inr (), w\<lparr>files := f\<rparr>))"

definition ensure_dir :: "string \<Rightarrow> unit io" where
  \<comment> \<open>\<^verbatim>\<open>if (!fs.existsSync(d)) { fs.mkdirSync(d, { recursive: true }); }\<close>\<close>
  "ensure_dir d =
     bind_io (exists_io d) (\<lambda>there. if \<not> there then lift_fs (\<lambda>f. mkdirSync f d) else return_io ())"

definition ensureSkillsDir :: "string \<Rightarrow> unit io" where
  \<comment> \<open>lines 263 to 267\<close>
  "ensureSkillsDir cwd = ensure_dir (skillsDir cwd)"

record fetch_result =
  ok :: bool
  body_text :: string
  status :: nat

definition fetch_try :: "transport \<Rightarrow> string \<Rightarrow> fetch_result io" where
  \<comment> \<open>lines 313 to 315: \<^verbatim>\<open>fetch(url)\<close>, then \<^verbatim>\<open>response.text()\<close>\<close>
  "fetch_try T url =
     (\<lambda>w. let w' = w\<lparr>requested := requested w @ [url]\<rparr>
          in case T (length (requested w)) url of
               Inl e \<Rightarrow> (Inl e, w')
             | Inr response \<Rightarrow>
                 (case resp_text response of
                    Inl e \<Rightarrow> (Inl e, w')
                  | Inr t \<Rightarrow>
                      (Inr \<lparr>ok = resp_ok response, body_text = t, status = resp_status response\<rparr>, w')))"

definition fetch_failed :: "js_error \<Rightarrow> fetch_result" where
  \<comment> \<open>line 317; \<^verbatim>\<open>err.message || "Fetch failed"\<close> replaces an absent or empty message\<close>
  "fetch_failed err =
     \<lparr>ok = False,
      body_text = (case message err of None \<Rightarrow> ''Fetch failed''
                   | Some m \<Rightarrow> if m = [] then ''Fetch failed'' else m),
      status = 0\<rparr>"

definition fetchText :: "transport \<Rightarrow> string \<Rightarrow> fetch_result io" where
  \<comment> \<open>lines 311 to 319\<close>
  "fetchText T url = catch_io (fetch_try T url) (\<lambda>err. return_io (fetch_failed err))"

subsection \<open>The tools\<close>

text \<open>
  What a tool returns: the text of its one content entry and its details, which are
  \<^verbatim>\<open>{ success: false }\<close>, \<^verbatim>\<open>{ success: true, skillName, fetched, failed }\<close> or
  \<^verbatim>\<open>{ success: true, name }\<close>.
\<close>

datatype details =
  Failure
  | Installed (d_skillName: string) (d_fetched: "string list") (d_failed: "string list")
  | Removed string

record tool_result =
  content :: string
  details :: details

definition success :: "details \<Rightarrow> bool" where
  "success d = (case d of Failure \<Rightarrow> False | _ \<Rightarrow> True)"

definition install_ref ::
  "string \<Rightarrow> transport \<Rightarrow> string \<Rightarrow> string \<Rightarrow> string \<Rightarrow> string list \<times> string list
     \<Rightarrow> (string list \<times> string list) io" where
  \<comment> \<open>the body of the loop, lines 384 to 402, on the lists \<^verbatim>\<open>fetched\<close> and \<^verbatim>\<open>failed\<close>\<close>
  "install_ref cwd T skillDir baseUrl ref acc =
     (case acc of (fetched, failed) \<Rightarrow>
        if \<not> isSafePath cwd skillDir ref
        then return_io (fetched, failed @ [ref @ '' (blocked: path traversal)''])
        else bind_io (fetchText T (baseUrl @ ''/'' @ ref)) (\<lambda>refResult.
               if ok refResult
               then (let destPath = path_join [skillDir, ref];
                         destDir = path_dirname destPath
                     in bind_io (ensure_dir destDir) (\<lambda>_.
                        bind_io (lift_fs (\<lambda>f. writeFileSync f destPath (body_text refResult))) (\<lambda>_.
                        return_io (fetched @ [ref], failed))))
               else return_io (fetched, failed @ [ref @ '' (HTTP '' @ dec (status refResult) @ '')''])))"

fun install_refs ::
  "string \<Rightarrow> transport \<Rightarrow> string \<Rightarrow> string \<Rightarrow> string list \<Rightarrow> string list \<times> string list
     \<Rightarrow> (string list \<times> string list) io" where
  \<comment> \<open>the loop of lines 383 to 403\<close>
  "install_refs cwd T skillDir baseUrl [] acc = return_io acc"
| "install_refs cwd T skillDir baseUrl (ref # refs) acc =
     bind_io (install_ref cwd T skillDir baseUrl ref acc) (install_refs cwd T skillDir baseUrl refs)"

definition bullet_list :: "string list \<Rightarrow> string" where
  \<comment> \<open>\<^verbatim>\<open>xs.map(f => `  - ${f}`).join("\n")\<close>\<close>
  "bullet_list xs = join_with [CHR 0x0A] (map (\<lambda>f. ''  - '' @ f) xs)"

definition install_summary :: "string \<Rightarrow> string list \<Rightarrow> string list \<Rightarrow> string" where
  \<comment> \<open>lines 405 to 408\<close>
  "install_summary skillName fetched failed =
     ''Installed skill '' @ [CHR 0x22] @ skillName @ [CHR 0x22] @ '' to skills/'' @ skillName @ ''/''
       @ [CHR 0x0A, CHR 0x0A] @ ''Files fetched:'' @ [CHR 0x0A] @ bullet_list fetched
       @ (if failed \<noteq> []
          then [CHR 0x0A, CHR 0x0A] @ ''Could not fetch:'' @ [CHR 0x0A] @ bullet_list failed
          else [])"

definition fetch_failure_text :: "string \<Rightarrow> fetch_result \<Rightarrow> string" where
  \<comment> \<open>line 364\<close>
  "fetch_failure_text url mainResult =
     ''Failed to fetch '' @ url @ '' (HTTP '' @ dec (status mainResult) @ ''): ''
       @ take 200 (body_text mainResult)"

definition install_skill :: "string \<Rightarrow> transport \<Rightarrow> string \<Rightarrow> string option \<Rightarrow> tool_result io" where
  \<comment> \<open>lines 338 to 414; \<open>url0\<close> is \<^verbatim>\<open>params.url\<close> and \<open>name\<close> is \<^verbatim>\<open>params.name\<close>\<close>
  "install_skill cwd T url0 name =
     (let url = trim url0
      in if url = []
         then return_io \<lparr>content = ''Usage: install_skill(url: 'https://example.com/skill.md')'',
                          details = Failure\<rparr>
         else if \<not> starts_with url ''http://'' \<and> \<not> starts_with url ''https://''
         then return_io \<lparr>content = ''URL must start with http:// or https://'', details = Failure\<rparr>
         else bind_io (ensureSkillsDir cwd) (\<lambda>_.
              let skillName = skill_name name url;
                  baseUrl = getBaseUrl url;
                  skillDir = path_join [skillsDir cwd, skillName]
              in bind_io (fetchText T url) (\<lambda>mainResult.
                 if \<not> ok mainResult
                 then return_io \<lparr>content = fetch_failure_text url mainResult, details = Failure\<rparr>
                 else bind_io (ensure_dir skillDir) (\<lambda>_.
                      let mainFilename = main_filename url
                      in bind_io (lift_fs (\<lambda>f. writeFileSync f (path_join [skillDir, mainFilename])
                                                  (body_text mainResult))) (\<lambda>_.
                         let refs = findReferencedFiles (body_text mainResult)
                         in bind_io (install_refs cwd T skillDir baseUrl refs ([mainFilename], []))
                              (\<lambda>(fetched, failed).
                                 return_io \<lparr>content = install_summary skillName fetched failed,
                                            details = Installed skillName fetched failed\<rparr>))))))"

definition uninstall_skill :: "string \<Rightarrow> string \<Rightarrow> tool_result io" where
  \<comment> \<open>lines 427 to 450; \<open>name0\<close> is \<^verbatim>\<open>params.name\<close>\<close>
  "uninstall_skill cwd name0 =
     (let name = trim name0
      in if name = []
         then return_io \<lparr>content = ''Usage: uninstall_skill(name: 'skill-name')'', details = Failure\<rparr>
         else (let skillDir = path_join [skillsDir cwd, name]
               in bind_io (exists_io skillDir) (\<lambda>there.
                  if \<not> there
                  then return_io \<lparr>content = ''Skill '' @ [CHR 0x22] @ name @ [CHR 0x22] @ '' not found in skills/'',
                                   details = Failure\<rparr>
                  else bind_io (lift_fs (\<lambda>f. rmSync f skillDir)) (\<lambda>_.
                       return_io \<lparr>content = ''Removed skill '' @ [CHR 0x22] @ name @ [CHR 0x22],
                                  details = Removed name\<rparr>))))"

subsection \<open>Notions of the statements\<close>

text \<open>
  A list of segments is clean when no segment is empty, \<^verbatim>\<open>.\<close> or \<^verbatim>\<open>..\<close>, or holds a slash.
  An absolute path is in normal form when \<^verbatim>\<open>path.resolve\<close> returns it as it is: a slash
  followed by clean segments joined by slashes. The paths that \<^verbatim>\<open>path.resolve\<close> and
  \<^verbatim>\<open>path.join\<close> return from an absolute start are of this form, the skill directory
  among them. \<open>resolved_segments R c\<close> are the segments of the candidate \<open>c\<close> resolved
  against the root whose segments are \<open>R\<close>.
\<close>

definition clean :: "string list \<Rightarrow> bool" where
  "clean segs = list_all (\<lambda>s. s \<noteq> [] \<and> s \<noteq> ''.'' \<and> s \<noteq> ''..'' \<and> CHR ''/'' \<notin> set s) segs"

definition normal_abs :: "string \<Rightarrow> bool" where
  "normal_abs p = (p = ''/'' @ normalizeString p False)"

definition resolved_segments :: "string list \<Rightarrow> string \<Rightarrow> string list" where
  "resolved_segments R c =
     rev (foldl (norm_step False) (if c \<noteq> [] \<and> hd c = CHR ''/'' then [] else rev R)
            (split_on CHR ''/'' c))"



subsection \<open>Example worlds\<close>

text \<open>
  A machine whose working directory \<^verbatim>\<open>/home/agent\<close> exists and holds nothing, and servers
  that answer every request alike.
\<close>

definition home_fs :: filesystem where
  "home_fs = [[''home''] \<mapsto> Dir, [''home'', ''agent''] \<mapsto> Dir]"

definition home_world :: world where
  "home_world = \<lparr>files = home_fs, requested = []\<rparr>"

definition page :: "string \<Rightarrow> js_error + response" where
  "page t = Inr \<lparr>resp_ok = True, resp_status = 200, resp_text = Inr t\<rparr>"

definition not_found_transport :: transport where
  "not_found_transport n url =
     Inr \<lparr>resp_ok = False, resp_status = 404, resp_text = Inr ''Not Found''\<rparr>"

definition down_transport :: transport where
  "down_transport n url = Inl (JsError (Some ''getaddrinfo ENOTFOUND''))"

definition doc_transport :: transport where
  "doc_transport n url =
     (if url = ''https://x.com/demo.md''
      then page ''Use `config.json`, not `../secret` or [s](../secret).''
      else if url = ''https://x.com/config.json'' then page ''{}''
      else not_found_transport n url)"

text \<open>
  The same machine with a skills directory that holds a skill and a plain file, and a
  directory beside it.
\<close>

definition skills_fs :: filesystem where
  "skills_fs = home_fs
     ([''home'', ''agent'', ''data''] \<mapsto> Dir,
      [''home'', ''agent'', ''data'', ''db.txt''] \<mapsto> File ''rows'',
      [''home'', ''agent'', ''skills''] \<mapsto> Dir,
      [''home'', ''agent'', ''skills'', ''notes.txt''] \<mapsto> File ''todo'',
      [''home'', ''agent'', ''skills'', ''demo''] \<mapsto> Dir,
      [''home'', ''agent'', ''skills'', ''demo'', ''demo.md''] \<mapsto> File ''# Demo'')"

definition skills_world :: world where
  "skills_world = \<lparr>files = skills_fs, requested = []\<rparr>"




section \<open>Properties\<close>

subsection \<open>The reference scanner\<close>

lemma set_foldl_add_ref: "set (foldl add_ref acc xs) = set acc \<union> set xs"
  by (induction xs arbitrary: acc) (auto simp: add_ref_def)

lemma set_findReferencedFiles:
  "set (findReferencedFiles doc) =
     {h \<in> set (link_targets doc). link_ok h} \<union> {t \<in> set (tick_tokens doc). tick_ok t}"
  by (auto simp: findReferencedFiles_def set_foldl_add_ref)

text \<open>
  C6. The references of a document are the targets of its markdown links that begin
  with none of \<^verbatim>\<open>http\<close>, \<^verbatim>\<open>#\<close> and \<^verbatim>\<open>mailto:\<close>, and the backtick tokens that pass the
  filename test. The text of scenario A has the two link targets \<^verbatim>\<open>guide.md\<close> and
  \<^verbatim>\<open>https://x.com/a\<close>, and its references are exactly \<^verbatim>\<open>guide.md\<close>.
\<close>

theorem scanner_links:
  "set (findReferencedFiles doc) =
     {h \<in> set (link_targets doc).
        \<not> prefix ''http'' h \<and> \<not> prefix ''#'' h \<and> \<not> prefix ''mailto:'' h}
     \<union> {t \<in> set (tick_tokens doc). tick_ok t}
   \<and> link_targets ''See [guide](guide.md) and [ext link](https://x.com/a)''
       = [''guide.md'', ''https://x.com/a'']
   \<and> findReferencedFiles ''See [guide](guide.md) and [ext link](https://x.com/a)'' = [''guide.md'']"
proof (intro conjI)
  show "set (findReferencedFiles doc) =
     {h \<in> set (link_targets doc).
        \<not> prefix ''http'' h \<and> \<not> prefix ''#'' h \<and> \<not> prefix ''mailto:'' h}
     \<union> {t \<in> set (tick_tokens doc). tick_ok t}"
    by (simp add: set_findReferencedFiles link_ok_def starts_with_def)
  show "link_targets ''See [guide](guide.md) and [ext link](https://x.com/a)''
       = [''guide.md'', ''https://x.com/a'']"
    by code_simp
  show "findReferencedFiles ''See [guide](guide.md) and [ext link](https://x.com/a)'' = [''guide.md'']"
    by code_simp
qed

theorem scanner_links_witness:
  "''b.md'' \<in> set (findReferencedFiles ''[a](b.md) [c](#top) `d.json`'')
   \<and> ''#top'' \<notin> set (findReferencedFiles ''[a](b.md) [c](#top) `d.json`'')"
proof -
  have l: "link_targets ''[a](b.md) [c](#top) `d.json`'' = [''b.md'', ''#top'']" by code_simp
  have t: "tick_tokens ''[a](b.md) [c](#top) `d.json`'' = [''d.json'']" by code_simp
  have e: "set (findReferencedFiles ''[a](b.md) [c](#top) `d.json`'') =
     {h \<in> set (link_targets ''[a](b.md) [c](#top) `d.json`'').
        \<not> prefix ''http'' h \<and> \<not> prefix ''#'' h \<and> \<not> prefix ''mailto:'' h}
     \<union> {t \<in> set (tick_tokens ''[a](b.md) [c](#top) `d.json`''). tick_ok t}"
    using scanner_links [of "''[a](b.md) [c](#top) `d.json`''"] by (rule conjunct1)
  show ?thesis unfolding e l t by simp
qed

subsection \<open>Names derived from the URL\<close>

lemma split_on_nonempty [simp]: "split_on c xs \<noteq> []"
  by (induction xs) (auto split: list.splits)

lemma split_on_append_sep: "split_on c (xs @ c # ys) = split_on c xs @ split_on c ys"
  by (induction xs) (auto split: list.splits)

lemma skill_name_chars: "list_all (\<lambda>c. is_word c \<or> c = CHR ''-'') (skill_name name url)"
  unfolding skill_name_def sanitize_def list_all_iff by auto


lemma trailing_slash_defaults:
  "getSkillName (u @ ''/'') = ''skill'' \<and> main_filename (u @ ''/'') = ''skill.md''"
proof -
  have l: "last (split_on CHR ''/'' (u @ ''/'')) = []"
    using split_on_append_sep [of "CHR ''/''" u "[]"] by simp
  have s: "strip_ext ''skill'' = ''skill''" by code_simp
  show ?thesis
    unfolding getSkillName_def main_filename_def l Let_def using s by simp
qed

text \<open>
  C10. The URL \<^verbatim>\<open>https://example.com/.md\<close> is accepted by the install (it is not empty
  and starts with \<^verbatim>\<open>https://\<close>); its last segment is \<^verbatim>\<open>.md\<close>, the whole of which the
  extension pattern removes, so the derived skill name is the empty string, the primary
  file name is \<^verbatim>\<open>.md\<close>, and the skill directory is the skills directory itself. (The
  rest of the claim holds: see \<open>skill_name_chars\<close>, \<open>main_filename_nonempty\<close> and
  \<open>trailing_slash_defaults\<close>.)
\<close>

theorem skill_name_empty:
  "trim ''https://example.com/.md'' = ''https://example.com/.md''
   \<and> starts_with ''https://example.com/.md'' ''https://''
   \<and> skill_name None ''https://example.com/.md'' = []
   \<and> main_filename ''https://example.com/.md'' = ''.md''
   \<and> path_join [skillsDir ''/home/agent'', skill_name None ''https://example.com/.md'']
       = skillsDir ''/home/agent''"
  by code_simp

subsection \<open>Fetching\<close>

lemma fetchText_run:
  "fetchText T url w =
     (Inr (case T (length (requested w)) url of
             Inl e \<Rightarrow> fetch_failed e
           | Inr response \<Rightarrow>
               (case resp_text response of
                  Inl e \<Rightarrow> fetch_failed e
                | Inr t \<Rightarrow> \<lparr>ok = resp_ok response, body_text = t, status = resp_status response\<rparr>)),
      w\<lparr>requested := requested w @ [url]\<rparr>)"
  by (simp add: fetchText_def catch_io_def fetch_try_def return_io_def Let_def split: sum.splits)

lemma fetchText_files: "fetchText T url w = (Inr r, w2) \<Longrightarrow> files w2 = files w"
  by (auto simp: fetchText_run)

text \<open>
  C7. \<^verbatim>\<open>fetchText\<close> returns a value for every transport, URL and world, and the request
  is recorded. When a response arrives and its body is read, the value carries the body,
  the status and the transport's ok flag. When the transport rejects, or the body cannot
  be read, the value has ok false, status 0 and, as its text, the message of the error
  or \<^verbatim>\<open>Fetch failed\<close>, which is never empty. (An error is an object with an optional
  message, as the fetch standard has it.)
\<close>

theorem fetchText_never_throws:
  "(\<exists>r. fetchText T url w = (Inr r, w\<lparr>requested := requested w @ [url]\<rparr>))
   \<and> (T (length (requested w)) url = Inr response \<and> resp_text response = Inr t \<longrightarrow>
        fst (fetchText T url w)
          = Inr \<lparr>ok = resp_ok response, body_text = t, status = resp_status response\<rparr>)
   \<and> (T (length (requested w)) url = Inl e
        \<or> (T (length (requested w)) url = Inr response \<and> resp_text response = Inl e) \<longrightarrow>
        fst (fetchText T url w)
          = Inr \<lparr>ok = False,
                 body_text = (case message e of None \<Rightarrow> ''Fetch failed''
                              | Some m \<Rightarrow> if m = [] then ''Fetch failed'' else m),
                 status = 0\<rparr>
        \<and> body_text (fetch_failed e) \<noteq> [])"
  by (auto simp: fetchText_run fetch_failed_def split: option.splits)

theorem fetchText_never_throws_witness:
  "fst (fetchText down_transport ''https://nowhere.invalid/a.md'' home_world)
     = Inr \<lparr>ok = False, body_text = ''getaddrinfo ENOTFOUND'', status = 0\<rparr>"
  using fetchText_never_throws [of down_transport "''https://nowhere.invalid/a.md''" home_world
      "\<lparr>resp_ok = False, resp_status = 0, resp_text = Inr []\<rparr>" "[]"
      "JsError (Some ''getaddrinfo ENOTFOUND'')"]
  by (simp add: down_transport_def)

subsection \<open>Installing\<close>

lemma bind_io_Inr_iff:
  "(bind_io m k w = (Inr y, w')) = (\<exists>x w1. m w = (Inr x, w1) \<and> k x w1 = (Inr y, w'))"
  by (auto simp: bind_io_def split: prod.splits sum.splits)

lemma install_ref_fetched:
  "install_ref cwd T skillDir baseUrl ref (fetched, failed) w = (Inr (fetched', failed'), w')
   \<Longrightarrow> fetched' = fetched \<or> fetched' = fetched @ [ref]"
  by (auto simp: install_ref_def bind_io_def return_io_def fetchText_run Let_def
           split: if_splits prod.splits sum.splits)

lemma install_refs_fetched:
  "install_refs cwd T skillDir baseUrl refs (fetched, failed) w = (Inr (fetched', failed'), w')
   \<Longrightarrow> prefix fetched fetched'"
proof (induction refs arbitrary: fetched failed w)
  case Nil
  then show ?case by (simp add: return_io_def)
next
  case (Cons ref refs)
  from Cons.prems obtain f1 l1 w1 where
    step: "install_ref cwd T skillDir baseUrl ref (fetched, failed) w = (Inr (f1, l1), w1)" and
    rest: "install_refs cwd T skillDir baseUrl refs (f1, l1) w1 = (Inr (fetched', failed'), w')"
    by (auto simp: bind_io_def split: prod.splits sum.splits)
  from install_ref_fetched [OF step] have "prefix fetched f1" by auto
  moreover from Cons.IH [OF rest] have "prefix f1 fetched'" .
  ultimately show ?case by (rule prefix_order.trans)
qed

text \<open>
  C5. When \<^verbatim>\<open>install_skill\<close> returns a report with \<^verbatim>\<open>success: true\<close>, the report names
  the skill and its \<^verbatim>\<open>fetched\<close> list begins with the file name of the primary document,
  whatever the references did.
\<close>

theorem install_fetched_first:
  assumes "install_skill cwd T url0 name w = (Inr res, w')"
      and "success (details res)"
  shows "\<exists>others failed.
           details res = Installed (skill_name name (trim url0))
                           (main_filename (trim url0) # others) failed"
proof -
  let ?url = "trim url0"
  let ?dir = "path_join [skillsDir cwd, skill_name name ?url]"
  from assms have "\<exists>(main :: fetch_result) w4 fetched failed.
      install_refs cwd T ?dir (getBaseUrl ?url) (findReferencedFiles (body_text main))
            ([main_filename ?url], []) w4 = (Inr (fetched, failed), w') \<and>
      details res = Installed (skill_name name ?url) fetched failed"
    by (auto simp: install_skill_def bind_io_Inr_iff return_io_def Let_def success_def
             split: if_splits; blast)
  then obtain main :: fetch_result and w4 fetched failed where
    run: "install_refs cwd T ?dir (getBaseUrl ?url) (findReferencedFiles (body_text main))
            ([main_filename ?url], []) w4 = (Inr (fetched, failed), w')" and
    res: "details res = Installed (skill_name name ?url) fetched failed"
    by blast
  from install_refs_fetched [OF run] obtain others where "fetched = main_filename ?url # others"
    by (auto simp: prefix_def)
  with res show ?thesis by blast
qed

lemma demo_run:
  "fst (install_skill ''/home/agent'' doc_transport ''https://x.com/demo.md'' None home_world)
     = Inr \<lparr>content = install_summary ''demo'' [''demo.md'', ''config.json'']
                         [''../secret (blocked: path traversal)''],
            details = Installed ''demo'' [''demo.md'', ''config.json'']
                        [''../secret (blocked: path traversal)'']\<rparr>"
  by code_simp

theorem install_fetched_first_witness:
  "\<exists>others failed.
     fst (install_skill ''/home/agent'' doc_transport ''https://x.com/demo.md'' None home_world)
       = Inr \<lparr>content = install_summary ''demo'' (''demo.md'' # others) failed,
              details = Installed ''demo'' (''demo.md'' # others) failed\<rparr>"
proof -
  obtain w' where run:
    "install_skill ''/home/agent'' doc_transport ''https://x.com/demo.md'' None home_world
       = (Inr \<lparr>content = install_summary ''demo'' [''demo.md'', ''config.json'']
                           [''../secret (blocked: path traversal)''],
              details = Installed ''demo'' [''demo.md'', ''config.json'']
                          [''../secret (blocked: path traversal)'']\<rparr>, w')"
    using demo_run by (metis prod.collapse)
  from install_fetched_first [OF run] show ?thesis
    unfolding demo_run by (simp add: success_def)
qed

lemma ensure_dir_run:
  "ensure_dir d w =
     (if existsSync (files w) d then (Inr (), w)
      else (case mkdirSync (files w) d of
              Inl e \<Rightarrow> (Inl e, w)
            | Inr f \<Rightarrow> (Inr (), w\<lparr>files := f\<rparr>)))"
  by (simp add: ensure_dir_def bind_io_def exists_io_def lift_fs_def return_io_def)

lemma in_tl_prefixes: "k \<in> set (tl (prefixes l)) \<longleftrightarrow> k \<noteq> [] \<and> prefix k l"
  by (cases l) (auto simp: prefix_Cons)

lemma mkdirSync_only_adds:
  "mkdirSync f d = Inr f' \<Longrightarrow>
     f' l = f l \<or> (f l = None \<and> f' l = Some Dir \<and> prefix l (path_segments d))"
  by (auto simp: mkdirSync_def Let_def in_tl_prefixes split: if_splits)

lemma ensure_dir_only_adds:
  assumes "ensure_dir d w = (Inr (), w1)"
  shows "requested w1 = requested w"
    and "existsSync (files w) d \<Longrightarrow> w1 = w"
    and "files w1 l = files w l \<or> (files w l = None \<and> files w1 l = Some Dir \<and> prefix l (path_segments d))"
  using assms mkdirSync_only_adds [of "files w" d _ l]
  by (auto simp: ensure_dir_run split: if_splits sum.splits)

text \<open>
  C4, as amended. \<^verbatim>\<open>install_skill\<close> ensures the skills directory before it fetches. When
  the primary fetch then does not succeed, it returns at once a report with
  \<^verbatim>\<open>success: false\<close> whose text carries the URL, the status and at most 200 characters of
  the text of the result. The file system is as \<^verbatim>\<open>ensureSkillsDir\<close> left it: unchanged when
  the skills directory was there, and otherwise changed only by new directories on the
  way to the skills directory, itself included; no file is written.
\<close>

theorem install_primary_fetch_failure:
  assumes "trim url0 = url" and "url \<noteq> []"
      and "starts_with url ''http://'' \<or> starts_with url ''https://''"
      and "ensureSkillsDir cwd w = (Inr (), w1)"
      and "fetchText T url w1 = (Inr r, w2)"
      and "\<not> ok r"
  shows "install_skill cwd T url0 name w
           = (Inr \<lparr>content = ''Failed to fetch '' @ url @ '' (HTTP '' @ dec (status r) @ ''): ''
                               @ take 200 (body_text r),
                    details = Failure\<rparr>, w2)
         \<and> length (take 200 (body_text r)) \<le> 200
         \<and> (existsSync (files w) (skillsDir cwd) \<longrightarrow> files w2 = files w)
         \<and> (\<forall>l. files w2 l = files w l
                \<or> (files w l = None \<and> files w2 l = Some Dir
                    \<and> prefix l (path_segments (skillsDir cwd))))"
proof (intro conjI)
  show "install_skill cwd T url0 name w
           = (Inr \<lparr>content = ''Failed to fetch '' @ url @ '' (HTTP '' @ dec (status r) @ ''): ''
                               @ take 200 (body_text r),
                    details = Failure\<rparr>, w2)"
    using assms
    by (auto simp: install_skill_def Let_def bind_io_def return_io_def fetch_failure_text_def)
  show "length (take 200 (body_text r)) \<le> 200" by simp
  have same: "files w2 = files w1" using assms(5) by (rule fetchText_files)
  have dir: "ensure_dir (skillsDir cwd) w = (Inr (), w1)"
    using assms(4) by (simp add: ensureSkillsDir_def)
  show "existsSync (files w) (skillsDir cwd) \<longrightarrow> files w2 = files w"
    using ensure_dir_only_adds(2) [OF dir] same by auto
  show "\<forall>l. files w2 l = files w l
                \<or> (files w l = None \<and> files w2 l = Some Dir
                    \<and> prefix l (path_segments (skillsDir cwd)))"
    using ensure_dir_only_adds(3) [OF dir] same by simp
qed

theorem install_primary_fetch_failure_witness:
  "fst (install_skill ''/home/agent'' not_found_transport '' https://x.com/a.md '' None home_world)
     = Inr \<lparr>content = ''Failed to fetch https://x.com/a.md (HTTP 404): Not Found'', details = Failure\<rparr>"
proof -
  let ?w1 = "snd (ensureSkillsDir ''/home/agent'' home_world)"
  let ?r = "\<lparr>ok = False, body_text = ''Not Found'', status = 404\<rparr>"
  let ?w2 = "?w1\<lparr>requested := requested ?w1 @ [''https://x.com/a.md'']\<rparr>"
  have t: "trim '' https://x.com/a.md '' = ''https://x.com/a.md''" by code_simp
  have n: "''https://x.com/a.md'' \<noteq> []" by simp
  have h: "starts_with ''https://x.com/a.md'' ''http://'' \<or> starts_with ''https://x.com/a.md'' ''https://''"
    by (simp add: starts_with_def)
  have "fst (ensureSkillsDir ''/home/agent'' home_world) = Inr ()" by code_simp
  then have d: "ensureSkillsDir ''/home/agent'' home_world = (Inr (), ?w1)"
    by (metis prod.collapse)
  have f: "fetchText not_found_transport ''https://x.com/a.md'' ?w1 = (Inr ?r, ?w2)"
    by (simp add: fetchText_run not_found_transport_def)
  have b: "\<not> ok ?r" by simp
  have s: "dec 404 = ''404''" by code_simp
  from install_primary_fetch_failure [OF t n h d f b, of None] show ?thesis
    by (simp add: s)
qed

text \<open>
  The claim as written fails: in a working directory without a skills directory, an
  install whose primary fetch returns 404 reports the failure and has created the
  skills directory.
\<close>

theorem install_failure_creates_skills_root:
  "fst (install_skill ''/home/agent'' not_found_transport ''https://x.com/a.md'' None home_world)
     = Inr \<lparr>content = ''Failed to fetch https://x.com/a.md (HTTP 404): Not Found'', details = Failure\<rparr>
   \<and> files home_world [''home'', ''agent'', ''skills''] = None
   \<and> files (snd (install_skill ''/home/agent'' not_found_transport ''https://x.com/a.md'' None home_world))
       [''home'', ''agent'', ''skills''] = Some Dir"
  by code_simp

subsection \<open>Uninstalling\<close>

lemma uninstall_skill_run:
  assumes "trim name0 = name"
  shows "uninstall_skill cwd name0 w =
     (if name = [] then (Inr \<lparr>content = ''Usage: uninstall_skill(name: 'skill-name')'', details = Failure\<rparr>, w)
      else if \<not> existsSync (files w) (path_join [skillsDir cwd, name])
      then (Inr \<lparr>content = ''Skill '' @ [CHR 0x22] @ name @ [CHR 0x22] @ '' not found in skills/'',
                  details = Failure\<rparr>, w)
      else (Inr \<lparr>content = ''Removed skill '' @ [CHR 0x22] @ name @ [CHR 0x22], details = Removed name\<rparr>,
            w\<lparr>files := (\<lambda>k. if prefix (path_segments (path_join [skillsDir cwd, name])) k
                               then None else files w k)\<rparr>))"
  using assms
  by (auto simp: uninstall_skill_def Let_def bind_io_def return_io_def exists_io_def lift_fs_def
        rmSync_def existsSync_def is_file_def split: option.splits node.splits)

text \<open>
  C8, as amended. With the trimmed name empty, \<^verbatim>\<open>uninstall_skill\<close> reports a failure and
  changes nothing. Otherwise it looks at the path that \<^verbatim>\<open>path.join\<close> makes of the skills
  directory and the name: when nothing exists there it reports that the skill was not
  found and changes nothing; when something exists there, a directory or a plain file,
  it removes it with everything below it, leaves the rest of the file system as it was
  and reports success.
\<close>

theorem uninstall_by_existence:
  assumes "trim name0 = name"
  shows "(name = [] \<longrightarrow>
            (\<exists>res. uninstall_skill cwd name0 w = (Inr res, w) \<and> details res = Failure))
       \<and> (name \<noteq> [] \<and> \<not> existsSync (files w) (path_join [skillsDir cwd, name]) \<longrightarrow>
            uninstall_skill cwd name0 w
              = (Inr \<lparr>content = ''Skill '' @ [CHR 0x22] @ name @ [CHR 0x22] @ '' not found in skills/'',
                       details = Failure\<rparr>, w))
       \<and> (name \<noteq> [] \<and> existsSync (files w) (path_join [skillsDir cwd, name]) \<longrightarrow>
            (\<exists>res w'. uninstall_skill cwd name0 w = (Inr res, w') \<and> details res = Removed name
               \<and> requested w' = requested w
               \<and> (\<forall>k. files w' k =
                        (if prefix (path_segments (path_join [skillsDir cwd, name])) k then None
                         else files w k))))"
  by (simp add: uninstall_skill_run [OF assms])

theorem uninstall_by_existence_witness:
  "fst (uninstall_skill ''/home/agent'' ''nonexistent'' skills_world)
     = Inr \<lparr>content = ''Skill '' @ [CHR 0x22] @ ''nonexistent'' @ [CHR 0x22] @ '' not found in skills/'',
            details = Failure\<rparr>
   \<and> snd (uninstall_skill ''/home/agent'' ''nonexistent'' skills_world) = skills_world
   \<and> (\<exists>res w'. uninstall_skill ''/home/agent'' '' demo '' skills_world = (Inr res, w')
         \<and> details res = Removed ''demo''
         \<and> files w' [''home'', ''agent'', ''skills'', ''demo''] = None
         \<and> files w' [''home'', ''agent'', ''skills'', ''demo'', ''demo.md''] = None
         \<and> files w' [''home'', ''agent'', ''skills'', ''notes.txt''] = Some (File ''todo''))"
proof -
  have t1: "trim ''nonexistent'' = ''nonexistent''" by code_simp
  have m: "\<not> existsSync (files skills_world) (path_join [skillsDir ''/home/agent'', ''nonexistent''])"
    by code_simp
  have t2: "trim '' demo '' = ''demo''" by code_simp
  have e: "existsSync (files skills_world) (path_join [skillsDir ''/home/agent'', ''demo''])"
    by code_simp
  have p: "path_segments (path_join [skillsDir ''/home/agent'', ''demo''])
             = [''home'', ''agent'', ''skills'', ''demo'']"
    by code_simp
  have n: "files skills_world [''home'', ''agent'', ''skills'', ''notes.txt''] = Some (File ''todo'')"
    by code_simp
  from uninstall_by_existence [OF t1, of "''/home/agent''" skills_world] m
  have a: "uninstall_skill ''/home/agent'' ''nonexistent'' skills_world
              = (Inr \<lparr>content = ''Skill '' @ [CHR 0x22] @ ''nonexistent'' @ [CHR 0x22] @ '' not found in skills/'',
                       details = Failure\<rparr>, skills_world)"
    by simp
  from uninstall_by_existence [OF t2, of "''/home/agent''" skills_world] e
  obtain res w' where r: "uninstall_skill ''/home/agent'' '' demo '' skills_world = (Inr res, w')"
      "details res = Removed ''demo''"
      "\<forall>k. files w' k =
            (if prefix (path_segments (path_join [skillsDir ''/home/agent'', ''demo''])) k then None
             else files skills_world k)"
    by auto
  from r(3) n have "files w' [''home'', ''agent'', ''skills'', ''demo''] = None"
      "files w' [''home'', ''agent'', ''skills'', ''demo'', ''demo.md''] = None"
      "files w' [''home'', ''agent'', ''skills'', ''notes.txt''] = Some (File ''todo'')"
    unfolding p by simp_all
  with a r(1,2) show ?thesis by simp
qed

text \<open>
  The claim as written fails: no directory is named \<^verbatim>\<open>notes.txt\<close> in the skills
  directory, only a plain file, and \<^verbatim>\<open>uninstall_skill\<close> deletes it and reports success.
\<close>

theorem uninstall_removes_plain_file:
  "files skills_world [''home'', ''agent'', ''skills'', ''notes.txt''] = Some (File ''todo'')
   \<and> fst (uninstall_skill ''/home/agent'' ''notes.txt'' skills_world)
       = Inr \<lparr>content = ''Removed skill '' @ [CHR 0x22] @ ''notes.txt'' @ [CHR 0x22],
              details = Removed ''notes.txt''\<rparr>
   \<and> files (snd (uninstall_skill ''/home/agent'' ''notes.txt'' skills_world))
        [''home'', ''agent'', ''skills'', ''notes.txt''] = None"
  by code_simp

subsection \<open>Paths\<close>

lemma split_on_no_sep: "c \<notin> set xs \<Longrightarrow> split_on c xs = [xs]"
  by (induction xs) auto

lemma split_on_parts: "s \<in> set (split_on c xs) \<Longrightarrow> c \<notin> set s"
proof (induction xs arbitrary: s)
  case Nil
  then show ?case by simp
next
  case (Cons x xs)
  show ?case
  proof (cases "x = c")
    case True
    with Cons show ?thesis by auto
  next
    case False
    obtain a as where r: "split_on c xs = a # as"
      by (cases "split_on c xs") auto
    with Cons.prems False have "s = x # a \<or> s \<in> set as" by simp
    moreover have "c \<notin> set a" using Cons.IH [of a] r by simp
    moreover have "s \<in> set as \<Longrightarrow> c \<notin> set s" using Cons.IH [of s] r by simp
    ultimately show ?thesis using False by auto
  qed
qed

lemma join_with_Cons: "xs \<noteq> [] \<Longrightarrow> join_with sep (x # xs) = x @ sep @ join_with sep xs"
  by (cases xs) auto

lemma join_with_append:
  "xs \<noteq> [] \<Longrightarrow> ys \<noteq> [] \<Longrightarrow> join_with sep (xs @ ys) = join_with sep xs @ sep @ join_with sep ys"
proof (induction xs)
  case Nil
  then show ?case by simp
next
  case (Cons x xs)
  show ?case
  proof (cases "xs = []")
    case True
    with Cons.prems show ?thesis by (simp add: join_with_Cons)
  next
    case False
    with Cons show ?thesis by (simp add: join_with_Cons)
  qed
qed

lemma split_on_join:
  "segs \<noteq> [] \<Longrightarrow> \<forall>s \<in> set segs. c \<notin> set s \<Longrightarrow> split_on c (join_with [c] segs) = segs"
proof (induction segs)
  case Nil
  then show ?case by simp
next
  case (Cons x xs)
  show ?case
  proof (cases "xs = []")
    case True
    with Cons.prems show ?thesis by (simp add: split_on_no_sep)
  next
    case False
    then have "join_with [c] (x # xs) = x @ c # join_with [c] xs"
      by (simp add: join_with_Cons)
    then have "split_on c (join_with [c] (x # xs)) = split_on c x @ split_on c (join_with [c] xs)"
      by (simp add: split_on_append_sep)
    with Cons False show ?thesis by (simp add: split_on_no_sep)
  qed
qed

lemma clean_Nil [simp]: "clean []"
  by (simp add: clean_def)

lemma clean_Cons [simp]:
  "clean (s # segs) \<longleftrightarrow> s \<noteq> [] \<and> s \<noteq> ''.'' \<and> s \<noteq> ''..'' \<and> CHR ''/'' \<notin> set s \<and> clean segs"
  by (auto simp: clean_def)

lemma clean_append [simp]: "clean (xs @ ys) \<longleftrightarrow> clean xs \<and> clean ys"
  by (auto simp: clean_def)

lemma clean_rev [simp]: "clean (rev xs) \<longleftrightarrow> clean xs"
  by (auto simp: clean_def list_all_iff)

lemma clean_no_sep: "clean segs \<Longrightarrow> \<forall>s \<in> set segs. CHR ''/'' \<notin> set s"
  by (auto simp: clean_def list_all_iff)

lemma norm_step_clean_seg:
  "s \<noteq> [] \<Longrightarrow> s \<noteq> ''.'' \<Longrightarrow> s \<noteq> ''..'' \<Longrightarrow> norm_step a stk s = s # stk"
  by (simp add: norm_step_def)

lemma foldl_norm_step_clean: "clean segs \<Longrightarrow> foldl (norm_step a) stk segs = rev segs @ stk"
  by (induction segs arbitrary: stk) (auto simp: norm_step_clean_seg)

lemma norm_step_keeps_clean:
  "clean stk \<Longrightarrow> CHR ''/'' \<notin> set s \<Longrightarrow> clean (norm_step False stk s)"
  by (cases stk) (auto simp: norm_step_def)

lemma foldl_norm_step_keeps_clean:
  "clean stk \<Longrightarrow> \<forall>s \<in> set segs. CHR ''/'' \<notin> set s \<Longrightarrow> clean (foldl (norm_step False) stk segs)"
  by (induction segs arbitrary: stk) (auto simp: norm_step_keeps_clean)

lemma norm_from_clean:
  "clean stk \<Longrightarrow> clean (foldl (norm_step False) stk (split_on CHR ''/'' p))"
  by (rule foldl_norm_step_keeps_clean) (auto dest: split_on_parts)

lemma norm_segments_clean: "clean (norm_segments False p)"
  by (simp add: norm_segments_def norm_from_clean)

lemma norm_step_empty [simp]: "norm_step a stk [] = stk"
  by (simp add: norm_step_def)

lemma split_on_Cons_sep [simp]: "split_on c (c # xs) = [] # split_on c xs"
  by simp

lemma foldl_split_clean:
  "clean segs \<Longrightarrow> foldl (norm_step a) stk (split_on CHR ''/'' (join_with ''/'' segs)) = rev segs @ stk"
proof (cases "segs = []")
  case True
  then show ?thesis by simp
next
  case False
  assume "clean segs"
  then show ?thesis
    using False by (simp add: split_on_join clean_no_sep foldl_norm_step_clean)
qed

lemma norm_segments_abs_join:
  "clean segs \<Longrightarrow> norm_segments a (CHR ''/'' # join_with ''/'' segs) = segs"
  by (simp add: norm_segments_def foldl_split_clean)

lemma normal_abs_iff:
  "normal_abs p \<longleftrightarrow> (\<exists>segs. clean segs \<and> p = ''/'' @ join_with ''/'' segs)"
proof
  assume "normal_abs p"
  then have "p = ''/'' @ join_with ''/'' (norm_segments False p)"
    by (simp add: normal_abs_def normalizeString_def)
  with norm_segments_clean show "\<exists>segs. clean segs \<and> p = ''/'' @ join_with ''/'' segs"
    by blast
next
  assume "\<exists>segs. clean segs \<and> p = ''/'' @ join_with ''/'' segs"
  then obtain segs where "clean segs" "p = ''/'' @ join_with ''/'' segs" by blast
  then show "normal_abs p"
    by (simp add: normal_abs_def normalizeString_def norm_segments_abs_join)
qed

lemma normal_abs_segments:
  "normal_abs p \<Longrightarrow> p = ''/'' @ join_with ''/'' (path_segments p)"
  by (simp add: normal_abs_def normalizeString_def path_segments_def)

lemma norm_segments_append_sep:
  "norm_segments a (p @ CHR ''/'' # q)
     = rev (foldl (norm_step a) (rev (norm_segments a p)) (split_on CHR ''/'' q))"
  by (simp add: norm_segments_def split_on_append_sep)

lemma norm_segments_snoc_sep: "norm_segments a (p @ ''/'') = norm_segments a p"
  by (simp add: norm_segments_append_sep)

lemma resolved_segments_clean: "clean R \<Longrightarrow> clean (resolved_segments R c)"
  by (simp add: resolved_segments_def norm_from_clean)

lemma path_resolve_root:
  assumes "clean R"
  shows "path_resolve cwd [CHR ''/'' # join_with ''/'' R, c]
           = CHR ''/'' # join_with ''/'' (resolved_segments R c)"
proof -
  let ?root = "CHR ''/'' # join_with ''/'' R"
  have root: "norm_segments False ?root = R"
    using assms by (rule norm_segments_abs_join)
  show ?thesis
  proof (cases "c = []")
    case True
    then have "resolve_args cwd (rev [?root, c]) [] = (?root @ ''/'', True)" by simp
    moreover have "norm_segments False (?root @ ''/'') = R"
      using root by (simp only: norm_segments_snoc_sep)
    moreover have "resolved_segments R c = R"
      using True by (simp add: resolved_segments_def)
    ultimately show ?thesis
      by (simp add: path_resolve_def normalizeString_def)
  next
    case False
    show ?thesis
    proof (cases "hd c = CHR ''/''")
      case True
      with False have "resolve_args cwd (rev [?root, c]) [] = (c @ ''/'', True)" by simp
      moreover have "norm_segments False (c @ ''/'') = resolved_segments R c"
        using True False by (simp add: norm_segments_snoc_sep) (simp add: norm_segments_def resolved_segments_def)
      ultimately show ?thesis
        by (simp add: path_resolve_def normalizeString_def)
    next
      case notabs: False
      with False have "resolve_args cwd (rev [?root, c]) [] = (?root @ ''/'' @ c @ ''/'', True)" by simp
      moreover have "norm_segments False (?root @ ''/'' @ c @ ''/'') = resolved_segments R c"
      proof -
        have "norm_segments False (?root @ ''/'' @ c @ ''/'') = norm_segments False (?root @ CHR ''/'' # c)"
          using norm_segments_snoc_sep [of False "?root @ CHR ''/'' # c"] by simp
        also have "\<dots> = rev (foldl (norm_step False) (rev R) (split_on CHR ''/'' c))"
          using root by (simp only: norm_segments_append_sep)
        finally show ?thesis using notabs by (simp add: resolved_segments_def)
      qed
      ultimately show ?thesis
        by (simp add: path_resolve_def normalizeString_def)
    qed
  qed
qed

lemma join_with_Cons_if:
  "join_with sep (x # xs) = (if xs = [] then x else x @ sep @ join_with sep xs)"
  by (cases xs) auto

lemma join_clean_eq_Nil: "clean segs \<Longrightarrow> join_with ''/'' segs = [] \<longleftrightarrow> segs = []"
  by (cases segs) (auto simp: join_with_Cons_if)

lemma join_clean_inj:
  assumes "clean A" "clean B" "join_with ''/'' A = join_with ''/'' B"
  shows "A = B"
proof (cases "A = [] \<or> B = []")
  case True
  with assms show ?thesis by (metis join_clean_eq_Nil)
next
  case False
  then have "split_on CHR ''/'' (join_with ''/'' A) = A" "split_on CHR ''/'' (join_with ''/'' B) = B"
    using assms(1,2) by (simp_all add: split_on_join clean_no_sep)
  with assms(3) show ?thesis by metis
qed

lemma join_prefix_iff:
  assumes "clean R" "clean S" "R \<noteq> []"
  shows "prefix (join_with ''/'' R @ ''/'') (join_with ''/'' S) \<or> join_with ''/'' S = join_with ''/'' R
           \<longleftrightarrow> prefix R S"
proof
  assume "prefix (join_with ''/'' R @ ''/'') (join_with ''/'' S) \<or> join_with ''/'' S = join_with ''/'' R"
  then show "prefix R S"
  proof
    assume "join_with ''/'' S = join_with ''/'' R"
    with assms have "S = R" by (metis join_clean_inj)
    then show ?thesis by simp
  next
    assume "prefix (join_with ''/'' R @ ''/'') (join_with ''/'' S)"
    then obtain t where t: "join_with ''/'' S = join_with ''/'' R @ CHR ''/'' # t"
      by (auto simp: prefix_def)
    then have "S \<noteq> []" by auto
    with assms have "split_on CHR ''/'' (join_with ''/'' S) = S" "split_on CHR ''/'' (join_with ''/'' R) = R"
      by (simp_all add: split_on_join clean_no_sep)
    with t have "S = R @ split_on CHR ''/'' t"
      by (simp add: split_on_append_sep)
    then show ?thesis by simp
  qed
next
  assume "prefix R S"
  then obtain T where S: "S = R @ T" by (auto simp: prefix_def)
  show "prefix (join_with ''/'' R @ ''/'') (join_with ''/'' S) \<or> join_with ''/'' S = join_with ''/'' R"
  proof (cases "T = []")
    case True
    with S show ?thesis by simp
  next
    case False
    with S assms(3) show ?thesis by (simp add: join_with_append)
  qed
qed

lemma isSafePath_root:
  assumes "clean R" "R \<noteq> []"
  shows "isSafePath cwd (CHR ''/'' # join_with ''/'' R) c \<longleftrightarrow> prefix R (resolved_segments R c)"
  using join_prefix_iff [OF assms(1) resolved_segments_clean [OF assms(1)] assms(2), of c]
  by (simp add: isSafePath_def path_resolve_root [OF assms(1)] starts_with_def Let_def)

lemma normal_abs_root: "normal_abs ''/''"
  by code_simp

lemma normal_abs_obtain:
  assumes "normal_abs root"
  obtains R where "clean R" "root = CHR ''/'' # join_with ''/'' R" "path_segments root = R"
proof -
  from assms obtain R where R: "clean R" "root = CHR ''/'' # join_with ''/'' R"
    by (auto simp: normal_abs_iff)
  then have "path_segments root = R"
    by (simp add: path_segments_def norm_segments_abs_join)
  with R show ?thesis by (rule that)
qed

lemma path_segments_resolve:
  "clean R \<Longrightarrow>
     path_segments (path_resolve cwd [CHR ''/'' # join_with ''/'' R, c]) = resolved_segments R c"
  by (simp add: path_resolve_root path_segments_def norm_segments_abs_join resolved_segments_clean)

lemma isSafePath_iff_inside:
  assumes "normal_abs root" "root \<noteq> ''/''"
  shows "isSafePath cwd root c
           \<longleftrightarrow> prefix (path_segments root) (path_segments (path_resolve cwd [root, c]))"
proof -
  from assms(1) obtain R where R: "clean R" "root = CHR ''/'' # join_with ''/'' R" "path_segments root = R"
    by (rule normal_abs_obtain)
  with assms(2) have "R \<noteq> []" by auto
  with R show ?thesis
    by (simp add: isSafePath_root path_segments_resolve)
qed

lemma resolved_segments_self:
  assumes "clean R"
  shows "resolved_segments R [] = R" and "resolved_segments R ''.'' = R"
    and "resolved_segments R (CHR ''/'' # join_with ''/'' R) = R"
proof -
  show "resolved_segments R [] = R" by (simp add: resolved_segments_def)
  show "resolved_segments R ''.'' = R" by (simp add: resolved_segments_def norm_step_def)
  show "resolved_segments R (CHR ''/'' # join_with ''/'' R) = R"
    using assms by (simp add: resolved_segments_def foldl_split_clean)
qed

text \<open>
  C1, as amended. For a root in normal form other than \<^verbatim>\<open>/\<close> and every candidate, the
  guard returns true exactly when the resolved path is the root or begins with the root
  and a slash; the resolved path is absolute; and this is exactly when the segments of
  the root are a prefix of the segments of the resolved path. So a candidate that
  resolves strictly inside the root is accepted, and so is the root itself, named by the
  empty candidate, by \<^verbatim>\<open>.\<close> or by its own path.
\<close>

theorem isSafePath_inside_root:
  assumes "normal_abs root" and "root \<noteq> ''/''"
  shows "(isSafePath cwd root c \<longleftrightarrow>
            path_resolve cwd [root, c] = root \<or> prefix (root @ ''/'') (path_resolve cwd [root, c]))
       \<and> prefix ''/'' (path_resolve cwd [root, c])
       \<and> (isSafePath cwd root c \<longleftrightarrow>
            prefix (path_segments root) (path_segments (path_resolve cwd [root, c])))
       \<and> (strict_prefix (path_segments root) (path_segments (path_resolve cwd [root, c]))
            \<longrightarrow> isSafePath cwd root c)
       \<and> isSafePath cwd root [] \<and> isSafePath cwd root ''.'' \<and> isSafePath cwd root root"
proof -
  from assms(1) obtain R where R: "clean R" "root = CHR ''/'' # join_with ''/'' R" "path_segments root = R"
    by (rule normal_abs_obtain)
  have iff: "\<And>c. isSafePath cwd root c
           \<longleftrightarrow> prefix (path_segments root) (path_segments (path_resolve cwd [root, c]))"
    using assms by (rule isSafePath_iff_inside)
  have "isSafePath cwd root c \<longleftrightarrow>
            path_resolve cwd [root, c] = root \<or> prefix (root @ ''/'') (path_resolve cwd [root, c])"
    by (auto simp: isSafePath_def starts_with_def Let_def)
  moreover have "prefix ''/'' (path_resolve cwd [root, c])"
    using R by (simp add: path_resolve_root)
  moreover have "strict_prefix (path_segments root) (path_segments (path_resolve cwd [root, c]))
            \<longrightarrow> isSafePath cwd root c"
    by (simp add: iff strict_prefix_def)
  moreover have "isSafePath cwd root []" "isSafePath cwd root ''.''" "isSafePath cwd root root"
  proof -
    from R assms(2) have "R \<noteq> []" by auto
    then show "isSafePath cwd root []" "isSafePath cwd root ''.''" "isSafePath cwd root root"
      unfolding R(2) using resolved_segments_self [OF R(1)]
      by (simp_all add: isSafePath_root [OF R(1)])
  qed
  ultimately show ?thesis using iff by blast
qed

theorem isSafePath_inside_root_witness:
  "isSafePath ''/home/agent'' ''/home/agent/skills/demo'' ''docs/./guide.md''
   \<and> isSafePath ''/home/agent'' ''/home/agent/skills/demo'' ''.''"
proof -
  have n: "normal_abs ''/home/agent/skills/demo''" by code_simp
  have r: "''/home/agent/skills/demo'' \<noteq> ''/''" by simp
  have a: "path_segments ''/home/agent/skills/demo'' = [''home'', ''agent'', ''skills'', ''demo'']"
    by code_simp
  have b: "path_segments (path_resolve ''/home/agent'' [''/home/agent/skills/demo'', ''docs/./guide.md''])
             = [''home'', ''agent'', ''skills'', ''demo'', ''docs'', ''guide.md'']"
    by code_simp
  have "strict_prefix (path_segments ''/home/agent/skills/demo'')
          (path_segments (path_resolve ''/home/agent'' [''/home/agent/skills/demo'', ''docs/./guide.md'']))"
    unfolding a b by (simp add: strict_prefix_def)
  with isSafePath_inside_root [OF n r, of "''/home/agent''" "''docs/./guide.md''"]
  show ?thesis by blast
qed

text \<open>
  The claim as written fails for the root \<^verbatim>\<open>/\<close>, where \<^verbatim>\<open>/x\<close> is strictly inside and is
  rejected, and for a root with a trailing slash, where a file inside and the root itself
  are rejected.
\<close>

theorem isSafePath_unnormalized_root:
  "path_segments ''/'' = []
   \<and> path_segments (path_resolve ''/home/agent'' [''/'', ''x'']) = [''x'']
   \<and> \<not> isSafePath ''/home/agent'' ''/'' ''x''
   \<and> path_segments ''/srv/skills/'' = [''srv'', ''skills'']
   \<and> path_segments (path_resolve ''/home/agent'' [''/srv/skills/'', ''a.md'']) = [''srv'', ''skills'', ''a.md'']
   \<and> \<not> isSafePath ''/home/agent'' ''/srv/skills/'' ''a.md''
   \<and> path_resolve ''/home/agent'' [''/srv/skills/'', ''.''] = ''/srv/skills''
   \<and> \<not> isSafePath ''/home/agent'' ''/srv/skills/'' ''.''"
  by code_simp

lemma resolve_args_absolute:
  "prefix ''/'' cwd \<Longrightarrow> snd (resolve_args cwd ps acc)"
  by (induction ps arbitrary: acc) (auto simp: prefix_def)

lemma path_resolve_normal:
  assumes "prefix ''/'' cwd"
  shows "\<exists>S. clean S \<and> path_resolve cwd args = CHR ''/'' # join_with ''/'' S"
proof -
  obtain rp ab where r: "resolve_args cwd (rev args) [] = (rp, ab)"
    by (cases "resolve_args cwd (rev args) []")
  with resolve_args_absolute [OF assms, of "rev args" "[]"] have "ab" by simp
  with r have "path_resolve cwd args = CHR ''/'' # join_with ''/'' (norm_segments False rp)"
    by (simp add: path_resolve_def normalizeString_def)
  with norm_segments_clean show ?thesis by blast
qed

lemma segments_of_string_prefix:
  assumes "clean S"
      and "CHR ''/'' # join_with ''/'' S = root \<or> prefix (root @ ''/'') (CHR ''/'' # join_with ''/'' S)"
  shows "prefix (path_segments root) S"
  using assms(2)
proof
  assume "CHR ''/'' # join_with ''/'' S = root"
  then have "path_segments root = S"
    using assms(1) by (auto simp: path_segments_def norm_segments_abs_join)
  then show ?thesis by simp
next
  assume "prefix (root @ ''/'') (CHR ''/'' # join_with ''/'' S)"
  then obtain rest where rest: "CHR ''/'' # join_with ''/'' S = root @ CHR ''/'' # rest"
    by (auto simp: prefix_def)
  show ?thesis
  proof (cases "S = []")
    case True
    with rest have "root = []" by (cases root) auto
    moreover have "path_segments [] = []" by code_simp
    ultimately show ?thesis by simp
  next
    case False
    then have "split_on CHR ''/'' (join_with ''/'' S) = S"
      using assms(1) by (simp add: split_on_join clean_no_sep)
    then have "split_on CHR ''/'' (CHR ''/'' # join_with ''/'' S) = [] # S" by simp
    with rest have sp: "split_on CHR ''/'' root @ split_on CHR ''/'' rest = [] # S"
      by (simp add: split_on_append_sep)
    obtain a as where ra: "split_on CHR ''/'' root = a # as"
      by (cases "split_on CHR ''/'' root") auto
    with sp have a: "a = []" and S: "S = as @ split_on CHR ''/'' rest" by simp_all
    from S assms(1) have "clean as" by (metis clean_append)
    then have "path_segments root = as"
      unfolding path_segments_def norm_segments_def ra a
      by (simp add: foldl_norm_step_clean)
    with S show ?thesis by simp
  qed
qed

lemma isSafePath_imp_inside_any:
  assumes "prefix ''/'' cwd" and "isSafePath cwd root c"
  shows "prefix (path_segments root) (path_segments (path_resolve cwd [root, c]))"
proof -
  from path_resolve_normal [OF assms(1), of "[root, c]"] obtain S where
    S: "clean S" "path_resolve cwd [root, c] = CHR ''/'' # join_with ''/'' S"
    by blast
  from assms(2) have "CHR ''/'' # join_with ''/'' S = root
      \<or> prefix (root @ ''/'') (CHR ''/'' # join_with ''/'' S)"
    unfolding isSafePath_def Let_def starts_with_def S(2) by auto
  with S(1) have "prefix (path_segments root) S" by (rule segments_of_string_prefix)
  moreover have "path_segments (path_resolve cwd [root, c]) = S"
    using S by (simp add: path_segments_def norm_segments_abs_join)
  ultimately show ?thesis by simp
qed

text \<open>
  C2, as amended. In an absolute working directory, for every root and every candidate
  whose resolved path is neither the root nor below it (the segments of the root are not
  a prefix of the segments of the resolved path), the guard returns false.
\<close>

theorem isSafePath_rejects_outside:
  assumes "prefix ''/'' cwd"
      and "\<not> prefix (path_segments root) (path_segments (path_resolve cwd [root, c]))"
  shows "\<not> isSafePath cwd root c"
  using assms isSafePath_imp_inside_any by blast

theorem isSafePath_rejects_outside_witness:
  "\<not> isSafePath ''/home/agent'' ''/home/agent/skills/demo'' ''../secret''
   \<and> \<not> isSafePath ''/home/agent'' ''/home/agent/skills/demo'' ''/etc/passwd''"
proof -
  have p: "prefix ''/'' ''/home/agent''" by simp
  have a: "path_segments ''/home/agent/skills/demo'' = [''home'', ''agent'', ''skills'', ''demo'']"
    by code_simp
  have b: "path_segments (path_resolve ''/home/agent'' [''/home/agent/skills/demo'', ''../secret''])
             = [''home'', ''agent'', ''skills'', ''secret'']"
    by code_simp
  have c: "path_segments (path_resolve ''/home/agent'' [''/home/agent/skills/demo'', ''/etc/passwd''])
             = [''etc'', ''passwd'']"
    by code_simp
  have "\<not> prefix (path_segments ''/home/agent/skills/demo'')
          (path_segments (path_resolve ''/home/agent'' [''/home/agent/skills/demo'', ''../secret'']))"
    unfolding a b by simp
  moreover have "\<not> prefix (path_segments ''/home/agent/skills/demo'')
          (path_segments (path_resolve ''/home/agent'' [''/home/agent/skills/demo'', ''/etc/passwd'']))"
    unfolding a c by simp
  ultimately show ?thesis
    using isSafePath_rejects_outside [OF p] by blast
qed

text \<open>
  The claim as written fails: a candidate with a \<^verbatim>\<open>..\<close> segment that stays inside the
  root is accepted, and so is an absolute path that points into the root.
\<close>

theorem isSafePath_accepts_dotdot_inside:
  "''..'' \<in> set (split_on CHR ''/'' ''docs/../guide.md'')
   \<and> isSafePath ''/home/agent'' ''/home/agent/skills/demo'' ''docs/../guide.md''
   \<and> hd ''/home/agent/skills/demo/guide.md'' = CHR ''/''
   \<and> isSafePath ''/home/agent'' ''/home/agent/skills/demo'' ''/home/agent/skills/demo/guide.md''"
  by code_simp

lemma resolved_segments_dotdot:
  assumes "clean R" "R \<noteq> []" "clean [x]"
  shows "resolved_segments R (''../'' @ x) = butlast R @ [x]"
proof -
  from assms(3) have x: "x \<noteq> []" "x \<noteq> ''.''" "x \<noteq> ''..''" "CHR ''/'' \<notin> set x" by simp_all
  have "split_on CHR ''/'' (''..'' @ CHR ''/'' # x) = split_on CHR ''/'' ''..'' @ split_on CHR ''/'' x"
    by (rule split_on_append_sep)
  then have s: "split_on CHR ''/'' (''../'' @ x) = [''..'', x]"
    using x(4) by (simp add: split_on_no_sep)
  obtain t below where r: "rev R = t # below"
    using assms(2) by (cases "rev R") auto
  then have "t \<in> set R" by (metis list.set_intros(1) set_rev)
  with assms(1) have t: "t \<noteq> ''..''" by (auto simp: clean_def list_all_iff)
  have b: "butlast R = rev below"
    using r by (metis butlast_snoc rev.simps(2) rev_rev_ident)
  show ?thesis
    unfolding resolved_segments_def s using r t x b
    by (simp add: norm_step_def)
qed

lemma isSafePath_dotdot:
  assumes "clean R" "R \<noteq> []" "clean [x]"
  shows "isSafePath cwd (CHR ''/'' # join_with ''/'' R) (''../'' @ x) \<longleftrightarrow> last R = x"
proof -
  have len: "length (butlast R @ [x]) = length R"
    using assms(2) by (cases R) auto
  have "isSafePath cwd (CHR ''/'' # join_with ''/'' R) (''../'' @ x)
          \<longleftrightarrow> prefix R (resolved_segments R (''../'' @ x))"
    using assms(1,2) by (rule isSafePath_root)
  also have "\<dots> \<longleftrightarrow> prefix R (butlast R @ [x])"
    by (simp only: resolved_segments_dotdot [OF assms])
  also have "\<dots> \<longleftrightarrow> R = butlast R @ [x]"
  proof
    assume "prefix R (butlast R @ [x])"
    then obtain zs where z: "butlast R @ [x] = R @ zs" by (auto simp: prefix_def)
    then have "length (butlast R @ [x]) = length R + length zs" by (metis length_append)
    with len have "zs = []" by simp
    with z show "R = butlast R @ [x]" by simp
  next
    assume "R = butlast R @ [x]"
    then show "prefix R (butlast R @ [x])" by simp
  qed
  also have "\<dots> \<longleftrightarrow> last R = x"
    using assms(2) by (metis append_butlast_last_id last_snoc)
  finally show ?thesis .
qed

subsection \<open>The skills directory and the skill directory\<close>

lemma skillsDir_shape:
  assumes "prefix ''/'' cwd"
  shows "skillsDir cwd = CHR ''/'' # join_with ''/'' (path_segments cwd @ [''skills''])"
proof -
  from assms have c: "cwd \<noteq> []" "hd cwd = CHR ''/''" by (auto simp: prefix_def)
  then have "resolve_args cwd (rev [''skills'']) [] = (cwd @ CHR ''/'' # ''skills/'', True)"
    by simp
  moreover have "split_on CHR ''/'' ''skills/'' = [''skills'', []]" by code_simp
  then have "norm_segments False (cwd @ CHR ''/'' # ''skills/'') = path_segments cwd @ [''skills'']"
    by (simp add: norm_segments_append_sep path_segments_def norm_step_def)
  ultimately show ?thesis
    by (simp add: skillsDir_def path_resolve_def normalizeString_def)
qed

lemma clean_last_no_sep:
  "clean S \<Longrightarrow> S \<noteq> [] \<Longrightarrow> last (join_with ''/'' S) \<noteq> CHR ''/''"
proof (induction S)
  case Nil
  then show ?case by simp
next
  case (Cons x S)
  show ?case
  proof (cases "S = []")
    case True
    with Cons.prems have "x \<noteq> []" "CHR ''/'' \<notin> set x" by simp_all
    then have "last x \<noteq> CHR ''/''" by (metis last_in_set)
    with True show ?thesis by simp
  next
    case False
    with Cons have "last (join_with ''/'' S) \<noteq> CHR ''/''" by simp
    moreover have "join_with ''/'' S \<noteq> []"
      using False Cons.prems by (simp add: join_clean_eq_Nil)
    ultimately show ?thesis using False by (simp add: join_with_Cons)
  qed
qed

lemma path_join_root:
  assumes "clean R" "R \<noteq> []" "c \<noteq> []"
  shows "path_segments (path_join [CHR ''/'' # join_with ''/'' R, c])
           = rev (foldl (norm_step False) (rev R) (split_on CHR ''/'' c))"
    and "last c \<noteq> CHR ''/'' \<Longrightarrow>
         path_join [CHR ''/'' # join_with ''/'' R, c]
           = CHR ''/'' # join_with ''/'' (rev (foldl (norm_step False) (rev R) (split_on CHR ''/'' c)))"
proof -
  let ?root = "CHR ''/'' # join_with ''/'' R"
  let ?J = "rev (foldl (norm_step False) (rev R) (split_on CHR ''/'' c))"
  have J: "clean ?J" using assms(1) by (simp add: norm_from_clean)
  have "norm_segments False (?root @ CHR ''/'' # c)
          = rev (foldl (norm_step False) (rev (norm_segments False ?root)) (split_on CHR ''/'' c))"
    by (rule norm_segments_append_sep)
  then have n: "norm_segments False (?root @ CHR ''/'' # c) = ?J"
    using assms(1) by (simp only: norm_segments_abs_join)
  have l: "last (?root @ CHR ''/'' # c) = last c" using assms(3) by simp
  have pj: "path_join [?root, c] =
      (if join_with ''/'' ?J = [] then ''/''
       else CHR ''/'' # join_with ''/'' ?J @ (if last c = CHR ''/'' then ''/'' else []))"
    using assms(3) n l by (simp add: path_join_def path_normalize_def normalizeString_def Let_def)
  show "path_segments (path_join [?root, c]) = ?J"
  proof (cases "join_with ''/'' ?J = []")
    case True
    then have "?J = []" using J by (simp only: join_clean_eq_Nil)
    moreover have "path_segments ''/'' = []" by code_simp
    ultimately show ?thesis using pj True by simp
  next
    case False
    have a: "path_segments (CHR ''/'' # join_with ''/'' ?J) = ?J"
      using J by (simp add: path_segments_def norm_segments_abs_join)
    have "path_segments ((CHR ''/'' # join_with ''/'' ?J) @ ''/'') = ?J"
      unfolding path_segments_def norm_segments_snoc_sep using a by (simp add: path_segments_def)
    with a pj False show ?thesis by simp
  qed
  show "path_join [?root, c] = CHR ''/'' # join_with ''/'' ?J" if "last c \<noteq> CHR ''/''"
  proof (cases "join_with ''/'' ?J = []")
    case True
    with pj show ?thesis by simp
  next
    case False
    with pj that show ?thesis by simp
  qed
qed

lemma path_segments_cwd_clean: "clean (path_segments cwd)"
  by (simp add: path_segments_def norm_segments_clean)

lemma uninstall_target_outside:
  assumes "prefix ''/'' cwd" "clean [x]" "x \<noteq> ''skills''"
  shows "path_segments (path_join [skillsDir cwd, ''../'' @ x]) = path_segments cwd @ [x]"
    and "path_segments (skillsDir cwd) = path_segments cwd @ [''skills'']"
    and "\<not> prefix (path_segments (skillsDir cwd)) (path_segments (path_join [skillsDir cwd, ''../'' @ x]))"
proof -
  let ?R = "path_segments cwd @ [''skills'']"
  have R: "clean ?R" "?R \<noteq> []" by (simp_all add: path_segments_cwd_clean)
  from assms(2) have x: "x \<noteq> []" "x \<noteq> ''.''" "x \<noteq> ''..''" "CHR ''/'' \<notin> set x" by simp_all
  have "split_on CHR ''/'' (''..'' @ CHR ''/'' # x) = split_on CHR ''/'' ''..'' @ split_on CHR ''/'' x"
    by (rule split_on_append_sep)
  then have s: "split_on CHR ''/'' (''../'' @ x) = [''..'', x]"
    using x(4) by (simp add: split_on_no_sep)
  have "path_segments (path_join [CHR ''/'' # join_with ''/'' ?R, ''../'' @ x])
          = rev (foldl (norm_step False) (rev ?R) (split_on CHR ''/'' (''../'' @ x)))"
    using R by (rule path_join_root(1)) simp
  also have "\<dots> = path_segments cwd @ [x]"
    unfolding s using x by (simp add: norm_step_def)
  finally show a: "path_segments (path_join [skillsDir cwd, ''../'' @ x]) = path_segments cwd @ [x]"
    by (simp only: skillsDir_shape [OF assms(1)])
  show b: "path_segments (skillsDir cwd) = path_segments cwd @ [''skills'']"
    using R(1) by (simp add: skillsDir_shape [OF assms(1)] path_segments_def norm_segments_abs_join)
  show "\<not> prefix (path_segments (skillsDir cwd)) (path_segments (path_join [skillsDir cwd, ''../'' @ x]))"
    unfolding a b using assms(3) by (auto simp: prefix_def)
qed

text \<open>
  C9. \<^verbatim>\<open>uninstall_skill\<close> joins the skills directory and the trimmed name and deletes what
  is there, with no check of the name. For the name \<^verbatim>\<open>../data\<close>, in every absolute working
  directory, the path is the directory \<^verbatim>\<open>data\<close> beside the skills directory, which is not
  inside the skills directory; when it exists it is deleted with everything below it and
  success is reported.
\<close>

theorem uninstall_outside_root:
  assumes "prefix ''/'' cwd"
      and "existsSync (files w) (path_join [skillsDir cwd, ''../data''])"
  shows "trim ''../data'' \<noteq> []
       \<and> path_segments (skillsDir cwd) = path_segments cwd @ [''skills'']
       \<and> path_segments (path_join [skillsDir cwd, ''../data'']) = path_segments cwd @ [''data'']
       \<and> \<not> prefix (path_segments (skillsDir cwd)) (path_segments (path_join [skillsDir cwd, ''../data'']))
       \<and> uninstall_skill cwd ''../data'' w
           = (Inr \<lparr>content = ''Removed skill '' @ [CHR 0x22] @ ''../data'' @ [CHR 0x22],
                    details = Removed ''../data''\<rparr>,
              w\<lparr>files := (\<lambda>k. if prefix (path_segments cwd @ [''data'']) k then None
                                 else files w k)\<rparr>)"
proof -
  have t: "trim ''../data'' = ''../data''" by code_simp
  have c: "clean [''data'']" by simp
  have n: "''data'' \<noteq> ''skills''" by simp
  have seg: "path_segments (path_join [skillsDir cwd, ''../data'']) = path_segments cwd @ [''data'']"
    using uninstall_target_outside(1) [OF assms(1) c n] by simp
  have out: "\<not> prefix (path_segments (skillsDir cwd)) (path_segments (path_join [skillsDir cwd, ''../data'']))"
    using uninstall_target_outside(3) [OF assms(1) c n] by simp
  have run: "uninstall_skill cwd ''../data'' w
           = (Inr \<lparr>content = ''Removed skill '' @ [CHR 0x22] @ ''../data'' @ [CHR 0x22],
                    details = Removed ''../data''\<rparr>,
              w\<lparr>files := (\<lambda>k. if prefix (path_segments cwd @ [''data'']) k then None
                                 else files w k)\<rparr>)"
    using assms(2) by (simp add: uninstall_skill_run [OF t] seg)
  show ?thesis
    using t seg out run uninstall_target_outside(2) [OF assms(1) c n] by simp
qed

theorem uninstall_outside_root_witness:
  "files skills_world [''home'', ''agent'', ''data''] = Some Dir
   \<and> files skills_world [''home'', ''agent'', ''data'', ''db.txt''] = Some (File ''rows'')
   \<and> fst (uninstall_skill ''/home/agent'' ''../data'' skills_world)
       = Inr \<lparr>content = ''Removed skill '' @ [CHR 0x22] @ ''../data'' @ [CHR 0x22],
              details = Removed ''../data''\<rparr>
   \<and> files (snd (uninstall_skill ''/home/agent'' ''../data'' skills_world))
        [''home'', ''agent'', ''data''] = None
   \<and> files (snd (uninstall_skill ''/home/agent'' ''../data'' skills_world))
        [''home'', ''agent'', ''data'', ''db.txt''] = None"
proof -
  have p: "prefix ''/'' ''/home/agent''" by simp
  have e: "existsSync (files skills_world) (path_join [skillsDir ''/home/agent'', ''../data''])"
    by code_simp
  have s: "path_segments ''/home/agent'' = [''home'', ''agent'']" by code_simp
  have a: "files skills_world [''home'', ''agent'', ''data''] = Some Dir" by code_simp
  have b: "files skills_world [''home'', ''agent'', ''data'', ''db.txt''] = Some (File ''rows'')"
    by code_simp
  from uninstall_outside_root [OF p e] a b show ?thesis
    unfolding s by simp
qed

lemma skill_name_clean:
  assumes "skill_name name url \<noteq> []"
  shows "clean [skill_name name url]"
proof -
  let ?n = "skill_name name url"
  have all: "\<forall>c \<in> set ?n. is_word c \<or> c = CHR ''-''"
    using skill_name_chars [of name url] by (simp add: list_all_iff)
  have s: "\<not> (is_word CHR ''/'' \<or> CHR ''/'' = CHR ''-'')" by (simp add: is_word_def)
  have d: "\<not> (is_word CHR ''.'' \<or> CHR ''.'' = CHR ''-'')" by (simp add: is_word_def)
  from all s have "CHR ''/'' \<notin> set ?n" by blast
  moreover from all d have dot: "CHR ''.'' \<notin> set ?n" by blast
  then have "?n \<noteq> ''.''" "?n \<noteq> ''..''" by auto
  ultimately show ?thesis using assms by simp
qed

lemma skill_dir_shape:
  assumes "prefix ''/'' cwd"
  shows "path_join [skillsDir cwd, skill_name name url]
           = CHR ''/'' # join_with ''/''
               (path_segments cwd @ [''skills'']
                  @ (if skill_name name url = [] then [] else [skill_name name url]))"
proof -
  let ?n = "skill_name name url"
  let ?R = "path_segments cwd @ [''skills'']"
  have R: "clean ?R" "?R \<noteq> []" by (simp_all add: path_segments_cwd_clean)
  have sd: "skillsDir cwd = CHR ''/'' # join_with ''/'' ?R"
    using assms by (rule skillsDir_shape)
  show ?thesis
  proof (cases "?n = []")
    case True
    have "norm_segments False (CHR ''/'' # join_with ''/'' ?R) = ?R"
      using R(1) by (rule norm_segments_abs_join)
    moreover have "join_with ''/'' ?R \<noteq> []"
      using R by (simp only: join_clean_eq_Nil) simp
    moreover have "last (join_with ''/'' ?R) \<noteq> CHR ''/''"
      using R by (rule clean_last_no_sep)
    ultimately have "path_normalize (CHR ''/'' # join_with ''/'' ?R) = CHR ''/'' # join_with ''/'' ?R"
      by (simp add: path_normalize_def normalizeString_def Let_def)
    then show ?thesis
      using True by (simp add: path_join_def sd)
  next
    case False
    then have c: "clean [?n]" by (rule skill_name_clean)
    then have "CHR ''/'' \<notin> set ?n" by simp
    with False have l: "last ?n \<noteq> CHR ''/''" by (metis last_in_set)
    have sp: "split_on CHR ''/'' ?n = [?n]"
      using \<open>CHR ''/'' \<notin> set ?n\<close> by (rule split_on_no_sep)
    have "path_join [CHR ''/'' # join_with ''/'' ?R, ?n]
            = CHR ''/'' # join_with ''/'' (rev (foldl (norm_step False) (rev ?R) (split_on CHR ''/'' ?n)))"
      using R False l by (rule path_join_root(2))
    also have "rev (foldl (norm_step False) (rev ?R) (split_on CHR ''/'' ?n)) = ?R @ [?n]"
      unfolding sp using c by (simp add: norm_step_def)
    finally show ?thesis using False by (simp add: sd)
  qed
qed


lemma secret_accepted:
  assumes "prefix ''/'' cwd" and "skill_name name url = ''secret''"
  shows "isSafePath cwd (path_join [skillsDir cwd, skill_name name url]) ''../secret''"
proof -
  let ?n = "skill_name name url"
  let ?S = "path_segments cwd @ [''skills''] @ (if ?n = [] then [] else [?n])"
  have S: "clean ?S" "?S \<noteq> []"
    using skill_name_clean [of name url] by (auto simp: path_segments_cwd_clean)
  have x: "clean [''secret'']" by simp
  have l: "last ?S = ''secret''" using assms(2) by simp
  have d: "path_join [skillsDir cwd, ?n] = CHR ''/'' # join_with ''/'' ?S"
    using assms(1) by (rule skill_dir_shape)
  have "isSafePath cwd (CHR ''/'' # join_with ''/'' ?S) (''../'' @ ''secret'') \<longleftrightarrow> last ?S = ''secret''"
    using S x by (rule isSafePath_dotdot)
  with l have "isSafePath cwd (CHR ''/'' # join_with ''/'' ?S) (''../'' @ ''secret'')"
    by blast
  then show ?thesis unfolding d by simp
qed

subsection \<open>The reference \<^verbatim>\<open>../secret\<close>\<close>

lemma match_tick_other: "c \<noteq> CHR 0x60 \<Longrightarrow> match_tick (c # cs) = None"
  by (simp add: match_tick_def)

lemma tick_tokens_skip: "CHR 0x60 \<notin> set pre \<Longrightarrow> tick_tokens (pre @ s) = tick_tokens s"
  by (induction pre) (auto simp: match_tick_other)

lemma has_ext_config: "has_ext ''config.json''"
  by code_simp

lemma tick_tokens_config:
  "tick_tokens (CHR 0x60 # ''config.json'' @ CHR 0x60 # post) = ''config.json'' # tick_tokens post"
  using has_ext_config by (simp add: match_tick_def tick_char_def is_space_def)

lemma tick_ok_config: "tick_ok ''config.json''"
  by code_simp

lemma tick_ok_secret: "\<not> tick_ok ''../secret''"
  by code_simp

lemma config_found:
  assumes "CHR 0x60 \<notin> set pre"
  shows "''config.json'' \<in> set (findReferencedFiles (pre @ CHR 0x60 # ''config.json'' @ CHR 0x60 # post))"
proof -
  have "tick_tokens (pre @ CHR 0x60 # ''config.json'' @ CHR 0x60 # post)
          = ''config.json'' # tick_tokens post"
    using tick_tokens_skip [OF assms, of "CHR 0x60 # ''config.json'' @ CHR 0x60 # post"]
    by (simp only: tick_tokens_config)
  then show ?thesis
    using tick_ok_config by (simp add: set_findReferencedFiles)
qed

lemma secret_only_by_link:
  "''../secret'' \<in> set (findReferencedFiles doc) \<Longrightarrow> ''../secret'' \<in> set (link_targets doc)"
  using tick_ok_secret by (auto simp: set_findReferencedFiles)

























lemma tick_open_no_tick:
  "CHR 0x60 \<notin> set pre \<Longrightarrow> tick_tokens (pre @ [CHR 0x60]) = tick_tokens pre"
proof -
  assume a: "CHR 0x60 \<notin> set pre"
  have "match_tick [CHR 0x60] = None" by (simp add: match_tick_def)
  then have "tick_tokens [CHR 0x60] = []" by simp
  moreover from tick_tokens_skip [OF a, of "[]"] have "tick_tokens pre = []" by simp
  ultimately show ?thesis using tick_tokens_skip [OF a, of "[CHR 0x60]"] by simp
qed


















end
